theory Spec2Isabelle
  imports Complex_Main "HOL-Library.Code_Target_Nat" "HOL-Library.Multiset"
begin

section \<open>Strings\<close>

text \<open>
  A JavaScript string is modelled as a \<^typ>\<open>string\<close>, read as its UTF-8 bytes.
  Case mapping and white space are the ASCII ones; the replacement of malformed UTF-8
  by U+FFFD when percent-escapes are decoded is not modelled.
\<close>

definition code :: "char \<Rightarrow> nat" where
  "code c = of_char c"

definition isUpper :: "char \<Rightarrow> bool" where
  "isUpper c = (65 \<le> code c \<and> code c \<le> 90)"

definition isLower :: "char \<Rightarrow> bool" where
  "isLower c = (97 \<le> code c \<and> code c \<le> 122)"

definition isDigit :: "char \<Rightarrow> bool" where
  "isDigit c = (48 \<le> code c \<and> code c \<le> 57)"

definition isAlnum :: "char \<Rightarrow> bool" where
  "isAlnum c = (isUpper c \<or> isLower c \<or> isDigit c)"

definition lowerChar :: "char \<Rightarrow> char" where
  "lowerChar c = (if isUpper c then char_of (code c + 32) else c)"

definition toLowerCase :: "string \<Rightarrow> string" where
  "toLowerCase s = map lowerChar s"

text \<open>White space removed by \<^verbatim>\<open>String.prototype.trim\<close>: TAB, LF, VT, FF, CR, SPACE.\<close>

definition isSpace :: "char \<Rightarrow> bool" where
  "isSpace c = ((9 \<le> code c \<and> code c \<le> 13) \<or> code c = 32)"

definition trim :: "string \<Rightarrow> string" where
  "trim s = rev (dropWhile isSpace (rev (dropWhile isSpace s)))"

definition startsWith :: "string \<Rightarrow> string \<Rightarrow> bool" where
  "startsWith s p = (take (length p) s = p)"

fun includes_str :: "string \<Rightarrow> string \<Rightarrow> bool" where
  "includes_str [] p = (p = [])"
| "includes_str (c # cs) p = (startsWith (c # cs) p \<or> includes_str cs p)"

text \<open>\<^verbatim>\<open>s.split(c)\<close> for a one-character separator.\<close>

fun split_on :: "char \<Rightarrow> string \<Rightarrow> string list" where
  "split_on c [] = [[]]"
| "split_on c (x # xs) =
     (if x = c then [] # split_on c xs
      else (case split_on c xs of [] \<Rightarrow> [[x]] | y # ys \<Rightarrow> (x # y) # ys))"

fun join :: "string \<Rightarrow> string list \<Rightarrow> string" where
  "join sep [] = []"
| "join sep [x] = x"
| "join sep (x # y # ys) = x @ sep @ join sep (y # ys)"

section \<open>The URL and URLSearchParams of the runtime\<close>

text \<open>
  \<^verbatim>\<open>canonicalizeUrl\<close> goes through the platform's \<^verbatim>\<open>URL\<close> class. The parser below
  follows the WHATWG algorithm for the two schemes the caller can produce (\<^verbatim>\<open>http\<close>
  and \<^verbatim>\<open>https\<close>): tabs and newlines are removed, extra slashes after the scheme are
  skipped, credentials and port are split off the authority, the host is lower-cased,
  dot segments of the path are resolved, and the query is read by the
  \<^verbatim>\<open>application/x-www-form-urlencoded\<close> parser. Hosts that need percent-decoding,
  IDNA mapping or IPv4/IPv6 number parsing are rejected, the path is not
  percent-encoded, and control characters at either end of the input are kept where
  the platform strips them. The theorems below depend on the parser only through what
  it returns on canonical URLs.
\<close>

record url =
  hostname :: string
  pathname :: string
  searchParams :: "(string \<times> string) list"

definition hexDigit :: "nat \<Rightarrow> char" where
  "hexDigit n = (if n < 10 then char_of (48 + n) else char_of (55 + n))"

definition hexVal :: "char \<Rightarrow> nat option" where
  "hexVal c =
     (if isDigit c then Some (code c - 48)
      else if 65 \<le> code c \<and> code c \<le> 70 then Some (code c - 55)
      else if 97 \<le> code c \<and> code c \<le> 102 then Some (code c - 87)
      else None)"

text \<open>The urlencoded byte serializer of \<^verbatim>\<open>URLSearchParams.prototype.toString\<close>.\<close>

definition encodeByte :: "char \<Rightarrow> string" where
  "encodeByte c =
     (if c = CHR '' '' then ''+''
      else if isAlnum c \<or> c = CHR ''*'' \<or> c = CHR ''-'' \<or> c = CHR ''.'' \<or> c = CHR ''_''
      then [c]
      else [CHR ''%'', hexDigit (code c div 16), hexDigit (code c mod 16)])"

definition urlencode :: "string \<Rightarrow> string" where
  "urlencode s = concat (map encodeByte s)"

fun percentDecode :: "string \<Rightarrow> string" where
  "percentDecode (c # h # l # rest) =
     (if c = CHR ''%'' then
        (case (hexVal h, hexVal l) of
           (Some a, Some b) \<Rightarrow> char_of (16 * a + b) # percentDecode rest
         | _ \<Rightarrow> c # percentDecode (h # l # rest))
      else c # percentDecode (h # l # rest))"
| "percentDecode (c # rest) = c # percentDecode rest"
| "percentDecode [] = []"

definition plusToSpace :: "string \<Rightarrow> string" where
  "plusToSpace s = map (\<lambda>c. if c = CHR ''+'' then CHR '' '' else c) s"

definition urldecode :: "string \<Rightarrow> string" where
  "urldecode s = percentDecode (plusToSpace s)"

definition parsePair :: "string \<Rightarrow> string \<times> string" where
  "parsePair piece =
     (let name = takeWhile (\<lambda>c. c \<noteq> CHR ''='') piece;
          val = drop (Suc (length name)) piece
      in (urldecode name, urldecode val))"

definition parseQuery :: "string \<Rightarrow> (string \<times> string) list" where
  "parseQuery q = map parsePair (filter (\<lambda>p. p \<noteq> []) (split_on (CHR ''&'') q))"

definition serializeParams :: "(string \<times> string) list \<Rightarrow> string" where
  "serializeParams ps = join ''&'' (map (\<lambda>(k, v). urlencode k @ ''='' @ urlencode v) ps)"

text \<open>\<^verbatim>\<open>searchParams.has\<close>, \<^verbatim>\<open>searchParams.get\<close> (the first value of the name) and
  \<^verbatim>\<open>searchParams.set\<close>.\<close>

definition has :: "(string \<times> string) list \<Rightarrow> string \<Rightarrow> bool" where
  "has ps k = (map_of ps k \<noteq> None)"

definition get :: "(string \<times> string) list \<Rightarrow> string \<Rightarrow> string option" where
  "get ps k = map_of ps k"

fun setParam :: "(string \<times> string) list \<Rightarrow> string \<Rightarrow> string \<Rightarrow> (string \<times> string) list" where
  "setParam [] k v = [(k, v)]"
| "setParam ((k', v') # ps) k v =
     (if k' = k then (k, v) # filter (\<lambda>p. fst p \<noteq> k) ps else (k', v') # setParam ps k v)"

definition backslash :: char where
  "backslash = CHR 0x5C"

definition isTabOrNewline :: "char \<Rightarrow> bool" where
  "isTabOrNewline c = (code c = 9 \<or> code c = 10 \<or> code c = 13)"

definition isSlash :: "char \<Rightarrow> bool" where
  "isSlash c = (c = CHR ''/'' \<or> c = backslash)"

definition endsAuthority :: "char \<Rightarrow> bool" where
  "endsAuthority c = (isSlash c \<or> c = CHR ''?'' \<or> c = CHR ''#'')"

definition endsPath :: "char \<Rightarrow> bool" where
  "endsPath c = (c = CHR ''?'' \<or> c = CHR ''#'')"

text \<open>Forbidden domain code points, the percent sign and every non-ASCII byte.\<close>

definition forbiddenHostChar :: "char \<Rightarrow> bool" where
  "forbiddenHostChar c =
     (code c \<le> 32 \<or> code c \<ge> 127 \<or> c \<in> set ''\"#%/:<>?@[]^|'' \<or> c = backslash)"

definition afterLast :: "char \<Rightarrow> string \<Rightarrow> string" where
  "afterLast c s = rev (takeWhile (\<lambda>x. x \<noteq> c) (rev s))"

definition validPort :: "string \<Rightarrow> bool" where
  "validPort p = (list_all isDigit p \<and> foldl (\<lambda>n d. 10 * n + (code d - 48)) 0 p \<le> 65535)"

definition parseHost :: "string \<Rightarrow> string option" where
  "parseHost authority =
     (let hostport = afterLast (CHR ''@'') authority;
          host = takeWhile (\<lambda>c. c \<noteq> CHR '':'') hostport;
          port = drop (Suc (length host)) hostport
      in if host = [] \<or> list_ex forbiddenHostChar host \<or> \<not> validPort port then None
         else Some (toLowerCase host))"

definition isSingleDot :: "string \<Rightarrow> bool" where
  "isSingleDot seg = (toLowerCase seg \<in> {''.'', ''%2e''})"

definition isDoubleDot :: "string \<Rightarrow> bool" where
  "isDoubleDot seg = (toLowerCase seg \<in> {''..'', ''.%2e'', ''%2e.'', ''%2e%2e''})"

text \<open>The path state of the parser: \<open>acc\<close> is the list of segments so far, \<open>segs\<close> the
  segments still to read; the last one is followed by the end of the path.\<close>

fun pathSegments :: "string list \<Rightarrow> string list \<Rightarrow> string list" where
  "pathSegments acc [] = acc"
| "pathSegments acc (seg # segs) =
     (let atEnd = (segs = []) in
      if isDoubleDot seg then
        pathSegments ((if atEnd then butlast acc @ [[]] else butlast acc)) segs
      else if isSingleDot seg then
        pathSegments (if atEnd then acc @ [[]] else acc) segs
      else pathSegments (acc @ [seg]) segs)"

definition parsePath :: "string \<Rightarrow> string" where
  "parsePath p =
     (let p' = map (\<lambda>c. if c = backslash then CHR ''/'' else c) p;
          segs = (if p' = [] then [[]] else split_on (CHR ''/'') (tl p'))
      in concat (map (\<lambda>seg. CHR ''/'' # seg) (pathSegments [] segs)))"

definition parseURL :: "string \<Rightarrow> url option" where
  "parseURL input =
     (let s = filter (\<lambda>c. \<not> isTabOrNewline c) input;
          afterScheme =
            (if startsWith s ''https:'' then Some (drop 6 s)
             else if startsWith s ''http:'' then Some (drop 5 s)
             else None)
      in case afterScheme of
           None \<Rightarrow> None
         | Some r \<Rightarrow>
             (let r' = dropWhile isSlash r;
                  authority = takeWhile (\<lambda>c. \<not> endsAuthority c) r';
                  rest = dropWhile (\<lambda>c. \<not> endsAuthority c) r';
                  path = takeWhile (\<lambda>c. \<not> endsPath c) rest;
                  afterPath = dropWhile (\<lambda>c. \<not> endsPath c) rest;
                  query =
                    (case afterPath of
                       c # q \<Rightarrow> if c = CHR ''?'' then takeWhile (\<lambda>c. c \<noteq> CHR ''#'') q else []
                     | [] \<Rightarrow> [])
              in case parseHost authority of
                   None \<Rightarrow> None
                 | Some h \<Rightarrow>
                     Some \<lparr>hostname = h, pathname = parsePath path,
                           searchParams = parseQuery query\<rparr>))"

section \<open>URL extractor and canonicalizer\<close>

datatype urlType = video | playlist | channel

record CanonicalizedUrl =
  canonicalUrl :: string
  videoId :: string
  playlistId :: "string option"
  type :: urlType

text \<open>\<^verbatim>\<open>/^[a-zA-Z0-9_-]{11}$/.test(videoId)\<close>\<close>

definition isIdChar :: "char \<Rightarrow> bool" where
  "isIdChar c = (isAlnum c \<or> c = CHR ''_'' \<or> c = CHR ''-'')"

definition isValidVideoId :: "string \<Rightarrow> bool" where
  "isValidVideoId v = (length v = 11 \<and> list_all isIdChar v)"

text \<open>\<^verbatim>\<open>x || undefined\<close> on a string that may be absent: the empty string is falsy.\<close>

definition truthy :: "string option \<Rightarrow> string option" where
  "truthy x = (case x of Some s \<Rightarrow> if s = [] then None else Some s | None \<Rightarrow> None)"

definition videoResult :: "string \<Rightarrow> CanonicalizedUrl" where
  "videoResult v =
     \<lparr>canonicalUrl = ''https://www.youtube.com/watch?v='' @ v, videoId = v,
      playlistId = None, type = video\<rparr>"

definition canonicalizeYoutubeCom :: "url \<Rightarrow> CanonicalizedUrl option" where
  "canonicalizeYoutubeCom urlObj =
     (if pathname urlObj = ''/playlist'' \<and> has (searchParams urlObj) ''list'' then
        (let pl = the (get (searchParams urlObj) ''list'') in
         Some \<lparr>canonicalUrl = ''https://www.youtube.com/playlist?list='' @ pl,
               videoId = [], playlistId = Some pl, type = playlist\<rparr>)
      else
        (let watch =
           (if pathname urlObj = ''/watch'' \<and> has (searchParams urlObj) ''v'' then
              (let v = the (get (searchParams urlObj) ''v'');
                   pl = truthy (get (searchParams urlObj) ''list'')
               in if isValidVideoId v then
                    (let cleanParams = setParam [] ''v'' v;
                         cleanParams' =
                           (case pl of Some p \<Rightarrow> setParam cleanParams ''list'' p
                            | None \<Rightarrow> cleanParams)
                     in Some \<lparr>canonicalUrl =
                                 ''https://www.youtube.com/watch?'' @ serializeParams cleanParams',
                               videoId = v, playlistId = pl,
                               type = (if pl \<noteq> None then playlist else video)\<rparr>)
                  else None)
            else None)
         in case watch of
              Some r \<Rightarrow> Some r
            | None \<Rightarrow>
                if startsWith (pathname urlObj) ''/embed/''
                   \<and> isValidVideoId (drop 7 (pathname urlObj))
                then Some (videoResult (drop 7 (pathname urlObj)))
                else if startsWith (pathname urlObj) ''/v/''
                   \<and> isValidVideoId (drop 3 (pathname urlObj))
                then Some (videoResult (drop 3 (pathname urlObj)))
                else None))"

text \<open>Lines 70 to 73: the string handed to \<^verbatim>\<open>new URL\<close>.\<close>

definition normalizeUrl :: "string \<Rightarrow> string" where
  "normalizeUrl u =
     (let normalized = trim u
      in if \<not> startsWith normalized ''http://'' \<and> \<not> startsWith normalized ''https://''
         then ''https://'' @ normalized else normalized)"

definition canonicalizeUrl :: "string \<Rightarrow> CanonicalizedUrl option" where
  "canonicalizeUrl u =
     (case parseURL (normalizeUrl u) of
           None \<Rightarrow> None
         | Some urlObj \<Rightarrow>
             if (hostname urlObj = ''youtu.be'' \<or> hostname urlObj = ''www.youtu.be'')
                \<and> isValidVideoId (drop 1 (pathname urlObj))
             then Some (videoResult (drop 1 (pathname urlObj)))
             else if hostname urlObj = ''youtube.com'' \<or> hostname urlObj = ''www.youtube.com''
             then canonicalizeYoutubeCom urlObj
             else None)"

section \<open>Finding the URLs in a text\<close>

text \<open>
  The six regular expressions of \<^verbatim>\<open>YOUTUBE_PATTERNS\<close> use literals, the class
  \<^verbatim>\<open>[a-zA-Z0-9_-]\<close>, optional groups, a lazy \<^verbatim>\<open>.*?\<close> and a greedy \<^verbatim>\<open>+\<close>, all under the
  flags \<^verbatim>\<open>gi\<close>. \<open>rxMatch\<close> is the backtracking matcher for that fragment: it returns
  the input left after the first way to match, in the order a backtracking engine
  tries them. The dot stops at LF and CR.
\<close>

datatype rx = Lit char | IdChar | Opt "rx list" | AnyLazy | IdPlus | IdStar

fun rxSize :: "rx \<Rightarrow> nat" where
  "rxSize (Opt rs) = Suc (sum_list (map rxSize rs))"
| "rxSize IdPlus = 2"
| "rxSize r = 1"

definition isLineTerminator :: "char \<Rightarrow> bool" where
  "isLineTerminator c = (code c = 10 \<or> code c = 13)"

function rxMatch :: "rx list \<Rightarrow> string \<Rightarrow> string option" where
  "rxMatch [] s = Some s"
| "rxMatch (Lit l # rs) s =
     (case s of [] \<Rightarrow> None
      | c # cs \<Rightarrow> if lowerChar c = lowerChar l then rxMatch rs cs else None)"
| "rxMatch (IdChar # rs) s =
     (case s of [] \<Rightarrow> None | c # cs \<Rightarrow> if isIdChar c then rxMatch rs cs else None)"
| "rxMatch (Opt g # rs) s =
     (case rxMatch (g @ rs) s of Some r \<Rightarrow> Some r | None \<Rightarrow> rxMatch rs s)"
| "rxMatch (AnyLazy # rs) s =
     (case rxMatch rs s of
        Some r \<Rightarrow> Some r
      | None \<Rightarrow>
          (case s of [] \<Rightarrow> None
           | c # cs \<Rightarrow> if isLineTerminator c then None else rxMatch (AnyLazy # rs) cs))"
| "rxMatch (IdPlus # rs) s =
     (case s of [] \<Rightarrow> None
      | c # cs \<Rightarrow> if isIdChar c then rxMatch (IdStar # rs) cs else None)"
| "rxMatch (IdStar # rs) s =
     (case s of [] \<Rightarrow> rxMatch rs s
      | c # cs \<Rightarrow>
          if isIdChar c then
            (case rxMatch (IdStar # rs) cs of Some r \<Rightarrow> Some r | None \<Rightarrow> rxMatch rs s)
          else rxMatch rs s)"
  by pat_completeness auto
termination
  by (relation "measures [\<lambda>(rs, s). sum_list (map rxSize rs), \<lambda>(rs, s). length s]") auto

text \<open>\<^verbatim>\<open>text.matchAll(pattern)\<close>, reduced to the matched substrings \<^verbatim>\<open>match[0]\<close>.\<close>

function matchAll :: "rx list \<Rightarrow> string \<Rightarrow> string list" where
  "matchAll rs s =
     (case s of
        [] \<Rightarrow> (case rxMatch rs [] of Some r \<Rightarrow> [[]] | None \<Rightarrow> [])
      | c # cs \<Rightarrow>
          (case rxMatch rs s of
             None \<Rightarrow> matchAll rs cs
           | Some r \<Rightarrow>
               if length r < length s then take (length s - length r) s # matchAll rs r
               else [] # matchAll rs cs))"
  by pat_completeness auto
termination
  by (relation "measure (\<lambda>(rs, s). length s)") auto

declare matchAll.simps [simp del]

definition lits :: "string \<Rightarrow> rx list" where
  "lits s = map Lit s"

definition rxPrefix :: "rx list" where
  "rxPrefix = [Opt (lits ''http'' @ [Opt [Lit (CHR ''s'')]] @ lits ''://''), Opt (lits ''www.'')]"

definition rxId11 :: "rx list" where
  "rxId11 = replicate 11 IdChar"

definition rxWatch :: "rx list" where
  "rxWatch = rxPrefix @ lits ''youtube.com/watch?v='' @ rxId11"

definition rxShort :: "rx list" where
  "rxShort = rxPrefix @ lits ''youtu.be/'' @ rxId11"

definition rxEmbed :: "rx list" where
  "rxEmbed = rxPrefix @ lits ''youtube.com/embed/'' @ rxId11"

definition rxV :: "rx list" where
  "rxV = rxPrefix @ lits ''youtube.com/v/'' @ rxId11"

definition rxPlaylist :: "rx list" where
  "rxPlaylist = rxPrefix @ lits ''youtube.com/playlist?list='' @ [IdPlus]"

definition rxWatchWithPlaylist :: "rx list" where
  "rxWatchWithPlaylist =
     rxPrefix @ lits ''youtube.com/watch?'' @ [AnyLazy] @ lits ''v='' @ rxId11
       @ [AnyLazy] @ lits ''list='' @ [IdPlus]"

definition YOUTUBE_PATTERNS :: "rx list list" where
  "YOUTUBE_PATTERNS = [rxWatch, rxShort, rxEmbed, rxV, rxPlaylist, rxWatchWithPlaylist]"

text \<open>\<^verbatim>\<open>urls.add(x)\<close> on a \<^verbatim>\<open>Set\<close>, which keeps insertion order.\<close>

definition setAdd :: "'a list \<Rightarrow> 'a \<Rightarrow> 'a list" where
  "setAdd xs x = (if x \<in> set xs then xs else xs @ [x])"

definition extractYouTubeUrls :: "string \<Rightarrow> string list" where
  "extractYouTubeUrls text =
     foldl (\<lambda>urls pattern.
              foldl (\<lambda>urls m. if m \<noteq> [] then setAdd urls m else urls) urls
                (matchAll pattern text))
       [] YOUTUBE_PATTERNS"

text \<open>One turn of the loop of \<^verbatim>\<open>extractAndCanonicalize\<close>; the \<^verbatim>\<open>Map\<close> keyed by
  video id is the list of its values in insertion order.\<close>

definition addCanonical :: "CanonicalizedUrl list \<Rightarrow> string \<Rightarrow> CanonicalizedUrl list" where
  "addCanonical canonicalized u =
     (case canonicalizeUrl u of
        None \<Rightarrow> canonicalized
      | Some canonical \<Rightarrow>
          if videoId canonical \<noteq> [] \<and> videoId canonical \<notin> videoId ` set canonicalized
          then canonicalized @ [canonical] else canonicalized)"

definition extractAndCanonicalize :: "string \<Rightarrow> CanonicalizedUrl list" where
  "extractAndCanonicalize text = foldl addCanonical [] (extractYouTubeUrls text)"

section \<open>Enrichment client\<close>

text \<open>
  \<^verbatim>\<open>YouTubeClient\<close> keeps the breaker in an instance field and talks to Redis and to
  the upstream API. The model passes the breaker and a \<open>world\<close> explicitly: the clock
  in milliseconds (advanced by \<^verbatim>\<open>sleep\<close>), the number of upstream calls made, the
  sleeps in order, and the Redis cache as the list of its entries. The upstream API is
  a function from the number of calls made so far and the requested ids to a response.
  A Redis read that fails is a miss, as in \<^verbatim>\<open>getCachedMetadata\<close>; writes are taken to
  succeed and expiry is not modelled. Of each returned item the model keeps the id and
  the metadata built from its snippet (absent when the item has no snippet).
\<close>

record VideoMetadata =
  mdVideoId :: string
  title :: string
  channelId :: string
  channelTitle :: string
  publishedAt :: int
  durationSeconds :: "nat option"

datatype breakerState = Closed | Open | HalfOpen

record CircuitBreakerState =
  state :: breakerState
  failures :: nat
  lastFailure :: "int option"

record config =
  failureThreshold :: nat
  resetTimeout :: int
  batchSize :: nat

definition defaultConfig :: config where
  "defaultConfig = \<lparr>failureThreshold = 3, resetTimeout = 60000, batchSize = 50\<rparr>"

definition initialBreaker :: CircuitBreakerState where
  "initialBreaker = \<lparr>state = Closed, failures = 0, lastFailure = None\<rparr>"

record apiError =
  errCode :: "int option"
  errStatus :: "int option"
  retryAfter :: "nat option"
  errMessage :: "string option"

record apiItem =
  itemId :: "string option"
  itemSnippet :: "VideoMetadata option"

datatype apiResponse = Items "apiItem list" | Failure apiError

datatype clientError = CircuitOpen | QuotaExceeded | Upstream apiError | FailedToFetch

type_synonym upstream = "nat \<Rightarrow> string list \<Rightarrow> apiResponse"

type_synonym metadataMap = "(string \<times> VideoMetadata) list"

record world =
  clock :: int
  apiCalls :: nat
  sleeps :: "int list"
  cache :: metadataMap

text \<open>\<^verbatim>\<open>Map.prototype.set\<close>: a present key keeps its place.\<close>

fun mapSet :: "('k \<times> 'v) list \<Rightarrow> 'k \<Rightarrow> 'v \<Rightarrow> ('k \<times> 'v) list" where
  "mapSet [] k v = [(k, v)]"
| "mapSet ((k', v') # m) k v = (if k' = k then (k, v) # m else (k', v') # mapSet m k v)"

definition sleep :: "int \<Rightarrow> world \<Rightarrow> world" where
  "sleep ms w = w\<lparr>clock := clock w + ms, sleeps := sleeps w @ [ms]\<rparr>"

definition getCachedMetadata :: "world \<Rightarrow> string \<Rightarrow> VideoMetadata option" where
  "getCachedMetadata w v = map_of (cache w) v"

definition cacheMetadata :: "string \<Rightarrow> VideoMetadata \<Rightarrow> world \<Rightarrow> world" where
  "cacheMetadata v md w = w\<lparr>cache := mapSet (cache w) v md\<rparr>"

definition maxRetries :: nat where
  "maxRetries = 3"

text \<open>Lines 118 to 166: items without id or snippet are skipped.\<close>

definition addItem :: "metadataMap \<Rightarrow> apiItem \<Rightarrow> metadataMap" where
  "addItem m item =
     (case (itemId item, itemSnippet item) of
        (Some i, Some md) \<Rightarrow> if i = [] then m else mapSet m i (md\<lparr>mdVideoId := i\<rparr>)
      | _ \<Rightarrow> m)"

definition isRateLimit :: "apiError \<Rightarrow> bool" where
  "isRateLimit e = (errCode e = Some 429 \<or> errStatus e = Some 429)"

definition isQuota :: "apiError \<Rightarrow> bool" where
  "isQuota e =
     ((case errMessage e of Some m \<Rightarrow> includes_str m ''quota'' | None \<Rightarrow> False)
      \<or> errStatus e = Some 403)"

text \<open>The retry loop of \<^verbatim>\<open>fetchVideoMetadataBatch\<close>, entered at \<open>attempt\<close> with the
  \<^verbatim>\<open>lastError\<close> recorded so far.\<close>

function fetchAttempts ::
  "upstream \<Rightarrow> string list \<Rightarrow> nat \<Rightarrow> apiError option \<Rightarrow> world
     \<Rightarrow> (clientError + metadataMap) \<times> world" where
  "fetchAttempts up ids attempt lastError w =
     (if attempt < maxRetries then
        (let w1 = w\<lparr>apiCalls := Suc (apiCalls w)\<rparr> in
         case up (apiCalls w) ids of
           Items items \<Rightarrow> (Inr (foldl addItem [] items), w1)
         | Failure e \<Rightarrow>
             if isRateLimit e then
               fetchAttempts up ids (Suc attempt) (Some e)
                 (sleep (int (case retryAfter e of Some r \<Rightarrow> r | None \<Rightarrow> 2 ^ attempt) * 1000) w1)
             else if isQuota e then (Inl QuotaExceeded, w1)
             else fetchAttempts up ids (Suc attempt) (Some e)
                    (sleep (int (2 ^ attempt) * 1000) w1))
      else (Inl (case lastError of Some e \<Rightarrow> Upstream e | None \<Rightarrow> FailedToFetch), w))"
  by pat_completeness auto
termination
  by (relation "measure (\<lambda>(up, ids, attempt, lastError, w). maxRetries - attempt)") auto

declare fetchAttempts.simps [simp del]

definition fetchVideoMetadataBatch ::
  "upstream \<Rightarrow> string list \<Rightarrow> world \<Rightarrow> (clientError + metadataMap) \<times> world" where
  "fetchVideoMetadataBatch up ids w = fetchAttempts up ids 0 None w"

definition handleCircuitBreakerFailure ::
  "config \<Rightarrow> int \<Rightarrow> CircuitBreakerState \<Rightarrow> CircuitBreakerState" where
  "handleCircuitBreakerFailure cfg now c =
     (let c1 = c\<lparr>failures := failures c + 1, lastFailure := Some now\<rparr>
      in if failures c1 \<ge> failureThreshold cfg then c1\<lparr>state := Open\<rparr> else c1)"

text \<open>The body of the batch loop (lines 79 to 94): on success the results are stored
  and written through and the breaker is reset; on failure the breaker records it and
  the error is rethrown.\<close>

definition storeBatch ::
  "metadataMap \<times> world \<Rightarrow> string \<times> VideoMetadata \<Rightarrow> metadataMap \<times> world" where
  "storeBatch rw kv = (mapSet (fst rw) (fst kv) (snd kv), cacheMetadata (fst kv) (snd kv) (snd rw))"

definition processBatch ::
  "config \<Rightarrow> upstream \<Rightarrow> string list \<Rightarrow> CircuitBreakerState \<Rightarrow> world \<Rightarrow> metadataMap
     \<Rightarrow> (clientError + metadataMap) \<times> CircuitBreakerState \<times> world" where
  "processBatch cfg up batch c w results =
     (case fetchVideoMetadataBatch up batch w of
        (Inr batchResults, w1) \<Rightarrow>
          (let rw = foldl storeBatch (results, w1) batchResults
           in (Inr (fst rw), \<lparr>state = Closed, failures = 0, lastFailure = None\<rparr>, snd rw))
      | (Inl e, w1) \<Rightarrow> (Inl e, handleCircuitBreakerFailure cfg (clock w1) c, w1))"

partial_function (option) batchLoop ::
  "config \<Rightarrow> upstream \<Rightarrow> string list \<Rightarrow> nat \<Rightarrow> CircuitBreakerState \<Rightarrow> world \<Rightarrow> metadataMap
     \<Rightarrow> ((clientError + metadataMap) \<times> CircuitBreakerState \<times> world) option" where
  "batchLoop cfg up uncachedIds i c w results =
     (if i < length uncachedIds then
        (case processBatch cfg up (take (batchSize cfg) (drop i uncachedIds)) c w results of
           (Inl e, c', w') \<Rightarrow> Some (Inl e, c', w')
         | (Inr results', c', w') \<Rightarrow>
             batchLoop cfg up uncachedIds (i + batchSize cfg) c' w' results')
      else Some (Inr results, c, w))"

definition probeCache :: "world \<Rightarrow> string list \<Rightarrow> metadataMap \<times> string list" where
  "probeCache w videoIds =
     foldl (\<lambda>(results, uncachedIds) v.
              case getCachedMetadata w v of
                Some cached \<Rightarrow> (mapSet results v cached, uncachedIds)
              | None \<Rightarrow> (results, uncachedIds @ [v]))
       ([], []) videoIds"

definition circuitIsOpen :: "config \<Rightarrow> CircuitBreakerState \<Rightarrow> world \<Rightarrow> bool" where
  "circuitIsOpen cfg c w =
     (state c = Open
      \<and> clock w - (case lastFailure c of Some t \<Rightarrow> t | None \<Rightarrow> 0) < resetTimeout cfg)"

definition getVideoMetadata ::
  "config \<Rightarrow> upstream \<Rightarrow> string list \<Rightarrow> CircuitBreakerState \<Rightarrow> world
     \<Rightarrow> ((clientError + metadataMap) \<times> CircuitBreakerState \<times> world) option" where
  "getVideoMetadata cfg up videoIds c w =
     (if videoIds = [] then Some (Inr [], c, w)
      else if circuitIsOpen cfg c w then Some (Inl CircuitOpen, c, w)
      else
        (let c1 = (if state c = Open then c\<lparr>state := HalfOpen\<rparr> else c);
             (results, uncachedIds) = probeCache w videoIds
         in if uncachedIds \<noteq> [] then batchLoop cfg up uncachedIds 0 c1 w results
            else Some (Inr results, c1, w)))"

section \<open>The relational store and the enrichment queue\<close>

text \<open>
  Each table is the list of its rows in insertion order. Generated primary keys
  (\<^verbatim>\<open>gen_random_uuid()\<close>) are drawn from the counter \<open>nextId\<close>; timestamps are
  milliseconds. The jobs added to \<^verbatim>\<open>videoEnrichQueue\<close> are kept in the same record.
\<close>

record userRow =
  u_id :: string
  gmail_access_token :: string
  gmail_refresh_token :: "string option"

record emailRow =
  em_id :: nat
  em_user_id :: string
  gmail_message_id :: string
  thread_id :: string
  sender_email :: string
  sender_name :: "string option"
  em_subject :: "string option"
  received_at :: int
  em_snippet :: string
  em_labels :: "string list"
  is_thread_reply :: bool
  thread_reply_count :: int

record linkRow =
  ln_id :: nat
  ln_user_id :: string
  ln_email_id :: nat
  canonical_url :: string
  ln_video_id :: string
  playlist_id :: "string option"
  extracted_at :: int
  is_duplicate :: bool

record senderStatsRow =
  ss_user_id :: string
  ss_sender_email :: string
  email_count :: int
  last_email_at :: "int option"
  is_in_contacts :: bool
  updated_at :: int

record rankingRow =
  rk_id :: nat
  rk_user_id :: string
  rk_link_id :: nat
  rk_video_id :: string
  final_score :: real
  ranked_at :: int

record feedbackRow =
  fb_user_id :: string
  fb_link_id :: nat
  action :: string
  label :: "string option"
  provided_at :: int

record VideoEnrichJobData =
  jobUserId :: string
  jobLinkId :: nat
  jobVideoId :: string

record store =
  users :: "userRow list"
  emails :: "emailRow list"
  youtube_links :: "linkRow list"
  video_metadata :: "VideoMetadata list"
  sender_stats :: "senderStatsRow list"
  rankings :: "rankingRow list"
  feedback :: "feedbackRow list"
  nextId :: nat
  videoEnrichQueue :: "VideoEnrichJobData list"

text \<open>
  Column types. A string stands for its UTF-8 bytes, and a \<^verbatim>\<open>VARCHAR(n)\<close> column holds
  at most \<open>n\<close> characters: a longer value is refused, unless the characters in excess
  are all spaces, which are then cut off. An \<^verbatim>\<open>INTEGER\<close> column holds at most
  2147483647. Strings are taken to be valid UTF-8 without the character NUL, user ids
  to be UUIDs and timestamps to be dates, so that a statement is refused for no other
  reason than a value too long, an integer out of range or a unique constraint.
\<close>

definition isContinuationByte :: "char \<Rightarrow> bool" where
  "isContinuationByte c = (128 \<le> code c \<and> code c < 192)"

definition charLength :: "string \<Rightarrow> nat" where
  "charLength s = length (filter (\<lambda>c. \<not> isContinuationByte c) s)"

definition varchar :: "nat \<Rightarrow> string \<Rightarrow> string option" where
  "varchar n s =
     (let excess = charLength s - n in
      if excess = 0 then Some s
      else if drop (length s - excess) s = replicate excess (CHR '' '')
      then Some (take (length s - excess) s)
      else None)"

definition varcharNull :: "nat \<Rightarrow> string option \<Rightarrow> string option option" where
  "varcharNull n x = (case x of None \<Rightarrow> Some None | Some s \<Rightarrow> map_option Some (varchar n s))"

definition int4Max :: int where
  "int4Max = 2147483647"

section \<open>Email processor\<close>

record jobMetadata =
  senderEmail :: string
  senderName :: "string option"
  subject :: "string option"
  receivedAt :: int
  snippet :: string
  labels :: "string list"

record EmailProcessJobData =
  userId :: string
  messageId :: string
  threadId :: string
  metadata :: jobMetadata

datatype part = Part "string option" "part list"

record gmailMessage =
  payload :: "part option"

text \<open>What the worker reaches outside the store: \<^verbatim>\<open>decrypt\<close> (it may throw),
  the Gmail API behind \<^verbatim>\<open>GmailClient.getMessage\<close> (it may throw) and the base64
  decoder of \<^verbatim>\<open>Buffer\<close>.\<close>

record env =
  decrypt :: "string \<Rightarrow> string option"
  getMessage :: "string \<Rightarrow> string option \<Rightarrow> string \<Rightarrow> string \<Rightarrow> gmailMessage option"
  base64 :: "string \<Rightarrow> string"

datatype jobError =
  UserNotFound | DecryptFailed | GmailFailed | IntegrityViolation | ValueTooLong | IntegerOutOfRange

fun extractPart :: "(string \<Rightarrow> string) \<Rightarrow> part \<Rightarrow> string" where
  "extractPart dec (Part d ps) =
     (case d of Some x \<Rightarrow> if x \<noteq> [] then dec x @ '' '' else [] | None \<Rightarrow> [])
       @ concat (map (extractPart dec) ps)"

definition extractMessageText :: "(string \<Rightarrow> string) \<Rightarrow> gmailMessage \<Rightarrow> string" where
  "extractMessageText dec message =
     (case payload message of Some p \<Rightarrow> extractPart dec p | None \<Rightarrow> [])"

definition emailExists :: "store \<Rightarrow> string \<Rightarrow> string \<Rightarrow> bool" where
  "emailExists s u m = (\<exists>e \<in> set (emails s). em_user_id e = u \<and> gmail_message_id e = m)"

text \<open>The row that an insert into \<^verbatim>\<open>emails\<close> forms from the job, if every value
  fits its column: \<^verbatim>\<open>gmail_message_id\<close>, \<^verbatim>\<open>thread_id\<close>, \<^verbatim>\<open>sender_email\<close> and
  \<^verbatim>\<open>sender_name\<close> are \<^verbatim>\<open>VARCHAR(255)\<close>, \<^verbatim>\<open>subject\<close> is \<^verbatim>\<open>VARCHAR(500)\<close>.\<close>

definition emailValues :: "EmailProcessJobData \<Rightarrow> nat \<Rightarrow> bool \<Rightarrow> int \<Rightarrow> emailRow option" where
  "emailValues job i isReply replyCount =
     (case varchar 255 (messageId job) of None \<Rightarrow> None | Some m \<Rightarrow>
      case varchar 255 (threadId job) of None \<Rightarrow> None | Some t \<Rightarrow>
      case varchar 255 (senderEmail (metadata job)) of None \<Rightarrow> None | Some e \<Rightarrow>
      case varcharNull 255 (truthy (senderName (metadata job))) of None \<Rightarrow> None | Some n \<Rightarrow>
      case varcharNull 500 (truthy (subject (metadata job))) of None \<Rightarrow> None | Some sj \<Rightarrow>
        Some \<lparr>em_id = i, em_user_id = userId job, gmail_message_id = m, thread_id = t,
              sender_email = e, sender_name = n, em_subject = sj,
              received_at = receivedAt (metadata job), em_snippet = snippet (metadata job),
              em_labels = labels (metadata job), is_thread_reply = isReply,
              thread_reply_count = replyCount\<rparr>)"

text \<open>\<^verbatim>\<open>storeEmail\<close>: the insert with \<^verbatim>\<open>ON CONFLICT DO NOTHING\<close>; the two thread
  columns take their defaults.\<close>

definition storeEmail :: "EmailProcessJobData \<Rightarrow> store \<Rightarrow> jobError + store" where
  "storeEmail job s =
     (case emailValues job (nextId s) False 0 of
        None \<Rightarrow> Inl ValueTooLong
      | Some row \<Rightarrow>
          if emailExists s (em_user_id row) (gmail_message_id row) then Inr s
          else Inr (s\<lparr>emails := emails s @ [row], nextId := Suc (nextId s)\<rparr>))"

text \<open>The insert at the head of the transaction has no conflict clause: a duplicate
  \<^verbatim>\<open>(user_id, gmail_message_id)\<close> violates the unique constraint.\<close>

definition insertEmail :: "EmailProcessJobData \<Rightarrow> store \<Rightarrow> jobError + nat \<times> store" where
  "insertEmail job s =
     (case emailValues job (nextId s) (''SENT'' \<notin> set (labels (metadata job)))
             (int (length (labels (metadata job)))) of
        None \<Rightarrow> Inl ValueTooLong
      | Some row \<Rightarrow>
          if emailExists s (em_user_id row) (gmail_message_id row) then Inl IntegrityViolation
          else Inr (nextId s, s\<lparr>emails := emails s @ [row], nextId := Suc (nextId s)\<rparr>))"

text \<open>One turn of the loop over \<^verbatim>\<open>canonicalizedUrls\<close> (lines 98 to 133), with
  \<^verbatim>\<open>linkIds\<close> as collected so far; \<^verbatim>\<open>video_id\<close> is \<^verbatim>\<open>VARCHAR(20)\<close> and
  \<^verbatim>\<open>playlist_id\<close> is \<^verbatim>\<open>VARCHAR(50)\<close>.\<close>

definition insertLink ::
  "string \<Rightarrow> nat \<Rightarrow> int \<Rightarrow> nat list \<Rightarrow> store \<Rightarrow> CanonicalizedUrl
     \<Rightarrow> jobError + nat list \<times> store" where
  "insertLink u emailId now linkIds s url =
     (let isDuplicate =
            (\<exists>l \<in> set (youtube_links s). ln_user_id l = u \<and> ln_video_id l = videoId url)
      in case varchar 20 (videoId url) of None \<Rightarrow> Inl ValueTooLong | Some v \<Rightarrow>
         case varcharNull 50 (truthy (playlistId url)) of None \<Rightarrow> Inl ValueTooLong | Some p \<Rightarrow>
           if \<exists>l \<in> set (youtube_links s).
                ln_user_id l = u \<and> ln_email_id l = emailId \<and> ln_video_id l = v
           then Inr (linkIds, s)
           else Inr (linkIds @ [nextId s],
                  s\<lparr>youtube_links := youtube_links s @
                       [\<lparr>ln_id = nextId s, ln_user_id = u, ln_email_id = emailId,
                         canonical_url = canonicalUrl url, ln_video_id = v,
                         playlist_id = p, extracted_at = now,
                         is_duplicate = isDuplicate\<rparr>],
                     nextId := Suc (nextId s)\<rparr>))"

text \<open>The loop itself: the first statement that is refused ends it.\<close>

fun insertLinks ::
  "string \<Rightarrow> nat \<Rightarrow> int \<Rightarrow> CanonicalizedUrl list \<Rightarrow> nat list \<Rightarrow> store
     \<Rightarrow> (jobError + nat list) \<times> store" where
  "insertLinks u emailId now [] linkIds s = (Inr linkIds, s)"
| "insertLinks u emailId now (url # urls) linkIds s =
     (case insertLink u emailId now linkIds s url of
        Inl e \<Rightarrow> (Inl e, s)
      | Inr (linkIds', s') \<Rightarrow> insertLinks u emailId now urls linkIds' s')"

definition isSender :: "string \<Rightarrow> string \<Rightarrow> senderStatsRow \<Rightarrow> bool" where
  "isSender u e r = (ss_user_id r = u \<and> ss_sender_email r = e)"

definition greatest :: "int option \<Rightarrow> int \<Rightarrow> int" where
  "greatest old new = (case old of Some t \<Rightarrow> max t new | None \<Rightarrow> new)"

text \<open>The upsert of lines 136 to 147: \<^verbatim>\<open>sender_email\<close> is \<^verbatim>\<open>VARCHAR(255)\<close> and
  \<^verbatim>\<open>email_count\<close> is \<^verbatim>\<open>INTEGER\<close>.\<close>

definition upsertSenderStats ::
  "string \<Rightarrow> string \<Rightarrow> int \<Rightarrow> int \<Rightarrow> store \<Rightarrow> jobError + store" where
  "upsertSenderStats u sender received now s =
     (case varchar 255 sender of
        None \<Rightarrow> Inl ValueTooLong
      | Some e \<Rightarrow>
          if \<exists>r \<in> set (sender_stats s). isSender u e r then
            if \<exists>r \<in> set (sender_stats s). isSender u e r \<and> email_count r + 1 > int4Max
            then Inl IntegerOutOfRange
            else
              Inr (s\<lparr>sender_stats :=
                      map (\<lambda>r. if isSender u e r then
                                 r\<lparr>email_count := email_count r + 1,
                                   last_email_at := Some (greatest (last_email_at r) received),
                                   updated_at := now\<rparr>
                               else r) (sender_stats s)\<rparr>)
          else
            Inr (s\<lparr>sender_stats := sender_stats s @
                   [\<lparr>ss_user_id = u, ss_sender_email = e, email_count = 1,
                     last_email_at = Some received, is_in_contacts = False,
                     updated_at = now\<rparr>]\<rparr>))"

text \<open>One turn of the loop over \<^verbatim>\<open>linkIds\<close> (lines 150 to 159).\<close>

definition enqueueEnrich ::
  "string \<Rightarrow> CanonicalizedUrl list \<Rightarrow> store \<Rightarrow> nat \<Rightarrow> store" where
  "enqueueEnrich u canonicalizedUrls s linkId =
     (case find (\<lambda>x. videoId x \<noteq> []) canonicalizedUrls of
        Some url \<Rightarrow>
          s\<lparr>videoEnrichQueue := videoEnrichQueue s @
               [\<lparr>jobUserId = u, jobLinkId = linkId, jobVideoId = videoId url\<rparr>]\<rparr>
      | None \<Rightarrow> s)"

text \<open>The body of the transaction (lines 68 to 159). It returns the state it has
  reached, also when a statement is refused.\<close>

definition storeEmailAndLinks ::
  "EmailProcessJobData \<Rightarrow> CanonicalizedUrl list \<Rightarrow> int \<Rightarrow> store \<Rightarrow> (jobError + unit) \<times> store" where
  "storeEmailAndLinks job canonicalizedUrls now s =
     (case insertEmail job s of
        Inl e \<Rightarrow> (Inl e, s)
      | Inr (emailId, s1) \<Rightarrow>
          (case insertLinks (userId job) emailId now canonicalizedUrls [] s1 of
             (Inl e, s2) \<Rightarrow> (Inl e, s2)
           | (Inr linkIds, s2) \<Rightarrow>
               (case upsertSenderStats (userId job) (senderEmail (metadata job))
                       (receivedAt (metadata job)) now s2 of
                  Inl e \<Rightarrow> (Inl e, s2)
                | Inr s3 \<Rightarrow>
                    (Inr (), foldl (enqueueEnrich (userId job) canonicalizedUrls) s3 linkIds))))"

text \<open>\<^verbatim>\<open>transaction\<close>: when the body fails, \<^verbatim>\<open>ROLLBACK\<close> restores the tables. The
  queue is not in the database: the jobs added before the failure stay. \<^verbatim>\<open>COMMIT\<close>
  and \<^verbatim>\<open>videoEnrichQueue.add\<close> are taken to succeed.\<close>

definition transaction ::
  "(store \<Rightarrow> (jobError + unit) \<times> store) \<Rightarrow> store \<Rightarrow> (jobError + unit) \<times> store" where
  "transaction body s =
     (case body s of
        (Inl e, s') \<Rightarrow> (Inl e, s\<lparr>videoEnrichQueue := videoEnrichQueue s'\<rparr>)
      | (Inr x, s') \<Rightarrow> (Inr x, s'))"

definition messageUrls :: "env \<Rightarrow> gmailMessage \<Rightarrow> CanonicalizedUrl list" where
  "messageUrls ev message = extractAndCanonicalize (extractMessageText (base64 ev) message)"

text \<open>Lines 34 to 51: the user's tokens are read and decrypted and the message is
  fetched; each step may throw.\<close>

definition fetchMessage :: "env \<Rightarrow> EmailProcessJobData \<Rightarrow> store \<Rightarrow> jobError + gmailMessage" where
  "fetchMessage ev job s =
     (case find (\<lambda>u. u_id u = userId job) (users s) of
        None \<Rightarrow> Inl UserNotFound
      | Some user \<Rightarrow>
          (case decrypt ev (gmail_access_token user) of
             None \<Rightarrow> Inl DecryptFailed
           | Some accessToken \<Rightarrow>
               (case map_option (decrypt ev) (truthy (gmail_refresh_token user)) of
                  Some None \<Rightarrow> Inl DecryptFailed
                | refreshToken \<Rightarrow>
                    (case getMessage ev accessToken (Option.bind refreshToken id)
                            (userId job) (messageId job) of
                       None \<Rightarrow> Inl GmailFailed
                     | Some message \<Rightarrow> Inr message))))"

definition processEmailJob ::
  "env \<Rightarrow> int \<Rightarrow> EmailProcessJobData \<Rightarrow> store \<Rightarrow> (jobError + unit) \<times> store" where
  "processEmailJob ev now job s =
     (if emailExists s (userId job) (messageId job) then (Inr (), s)
      else
        case fetchMessage ev job s of
          Inl e \<Rightarrow> (Inl e, s)
        | Inr message \<Rightarrow>
            (let canonicalizedUrls = messageUrls ev message
             in if canonicalizedUrls = [] then
                  (case storeEmail job s of Inl e \<Rightarrow> (Inl e, s) | Inr s' \<Rightarrow> (Inr (), s'))
                else transaction (storeEmailAndLinks job canonicalizedUrls now) s))"

section \<open>Feature extractor and ranker\<close>

text \<open>
  JavaScript numbers are read as real numbers, so rounding, overflow and NaN are
  outside the model. \<open>now\<close> is \<^verbatim>\<open>Date.now()\<close>; a day is 86400000 ms.
\<close>

record featureWeights =
  wSenderScore :: real
  wThreadScore :: real
  wFreshnessScore :: real
  wTopicMatchScore :: real
  wNoisePenalty :: real

record rankingConfig =
  watchNowThreshold :: real
  saveThreshold :: real
  freshnessHalfLifeDays :: real
  weights :: featureWeights

definition defaultRanking :: rankingConfig where
  "defaultRanking =
     \<lparr>watchNowThreshold = 0.7, saveThreshold = 0.4, freshnessHalfLifeDays = 30,
      weights = \<lparr>wSenderScore = 0.3, wThreadScore = 0.2, wFreshnessScore = 0.2,
                 wTopicMatchScore = 0.2, wNoisePenalty = 0.1\<rparr>\<rparr>"

record FeatureScores =
  senderScore :: real
  threadScore :: real
  freshnessScore :: real
  topicMatchScore :: real
  noisePenalty :: real

record RankingContext =
  rcUserId :: string
  rcSenderEmail :: string
  threadReplyCount :: int
  emailReceivedAt :: int
  videoPublishedAt :: int
  videoTitle :: string
  videoDescription :: "string option"
  userLearningGoals :: "string list option"

definition msPerDay :: real where
  "msPerDay = 1000 * 60 * 60 * 24"

definition senderStatsOf :: "store \<Rightarrow> string \<Rightarrow> string \<Rightarrow> senderStatsRow option" where
  "senderStatsOf s u e = find (isSender u e) (sender_stats s)"

definition computeSenderScore :: "store \<Rightarrow> int \<Rightarrow> string \<Rightarrow> string \<Rightarrow> real" where
  "computeSenderScore s now u e =
     (case senderStatsOf s u e of
        None \<Rightarrow> 0.1
      | Some stat \<Rightarrow>
          (let emailCount = real_of_int (email_count stat);
               logScore = ln (emailCount + 1) / ln 1001;
               normalizedLogScore = min logScore 1;
               daysSinceLastEmail =
                 (case last_email_at stat of
                    Some t \<Rightarrow> real_of_int (now - t) / msPerDay
                  | None \<Rightarrow> 365);
               recencyDecay = exp (- daysSinceLastEmail / 30);
               contactsBoost = (if is_in_contacts stat then 1.5 else 1)
           in min (normalizedLogScore * recencyDecay * contactsBoost) 1))"

definition computeThreadScore :: "int \<Rightarrow> real" where
  "computeThreadScore n = min (real_of_int n / 3) 1"

definition computeFreshnessScore :: "rankingConfig \<Rightarrow> int \<Rightarrow> int \<Rightarrow> real" where
  "computeFreshnessScore cfg published received =
     (let daysSincePublish = real_of_int (received - published) / msPerDay;
          halfLifeDays = freshnessHalfLifeDays cfg
      in exp (- daysSincePublish / halfLifeDays))"

definition computeTopicMatchScore :: "string \<Rightarrow> string option \<Rightarrow> string list \<Rightarrow> real" where
  "computeTopicMatchScore t d learningGoals =
     (if learningGoals = [] then 0.5
      else
        (let text = toLowerCase (t @ '' '' @ (case d of Some x \<Rightarrow> x | None \<Rightarrow> []));
             matches = filter (\<lambda>goal. includes_str text (toLowerCase goal)) learningGoals
         in real (length matches) / real (length learningGoals)))"

definition computeNoisePenalty :: "store \<Rightarrow> string \<Rightarrow> string \<Rightarrow> real" where
  "computeNoisePenalty s u e =
     (case senderStatsOf s u e of
        None \<Rightarrow> 1
      | Some stat \<Rightarrow> 1 - min (real_of_int (email_count stat) / 100) 0.5)"

definition extractFeatures :: "rankingConfig \<Rightarrow> store \<Rightarrow> int \<Rightarrow> RankingContext \<Rightarrow> FeatureScores" where
  "extractFeatures cfg s now ctx =
     \<lparr>senderScore = computeSenderScore s now (rcUserId ctx) (rcSenderEmail ctx),
      threadScore = computeThreadScore (threadReplyCount ctx),
      freshnessScore = computeFreshnessScore cfg (videoPublishedAt ctx) (emailReceivedAt ctx),
      topicMatchScore =
        computeTopicMatchScore (videoTitle ctx) (videoDescription ctx)
          (case userLearningGoals ctx of Some g \<Rightarrow> g | None \<Rightarrow> []),
      noisePenalty = computeNoisePenalty s (rcUserId ctx) (rcSenderEmail ctx)\<rparr>"

datatype Classification = watch_now | save | skip

definition classify :: "rankingConfig \<Rightarrow> real \<Rightarrow> Classification" where
  "classify cfg score =
     (if score \<ge> watchNowThreshold cfg then watch_now
      else if score \<ge> saveThreshold cfg then save
      else skip)"

record RankingResult =
  finalScore :: real
  classification :: Classification
  featureScores :: FeatureScores

text \<open>\<^verbatim>\<open>Ranker.rank\<close>, without the explanation string and the topic tags.\<close>

definition rank :: "rankingConfig \<Rightarrow> store \<Rightarrow> int \<Rightarrow> RankingContext \<Rightarrow> RankingResult" where
  "rank cfg s now ctx =
     (let fs = extractFeatures cfg s now ctx;
          w = weights cfg;
          score = wSenderScore w * senderScore fs + wThreadScore w * threadScore fs
                    + wFreshnessScore w * freshnessScore fs
                    + wTopicMatchScore w * topicMatchScore fs
                    + wNoisePenalty w * noisePenalty fs
      in \<lparr>finalScore = max 0 (min 1 score), classification = classify cfg score,
          featureScores = fs\<rparr>)"

section \<open>Evaluation harness\<close>

text \<open>
  The two queries of \<^verbatim>\<open>evaluate\<close>. SQL leaves open the order of the rows that no
  \<^verbatim>\<open>ORDER BY\<close> decides; the order in which the database yields the selected rows of a
  table is therefore a parameter of the queries, one function for each table. The
  ranking query joins \<^verbatim>\<open>video_metadata\<close> and orders by
  \<^verbatim>\<open>ranked_at DESC, final_score DESC\<close>: the rows are sorted stably, so that rows which
  tie on both columns stay as the database yields them. The feedback query has no
  \<^verbatim>\<open>ORDER BY\<close>.
\<close>

record rowOrder =
  rankingRows :: "rankingRow list \<Rightarrow> rankingRow list"
  feedbackRows :: "feedbackRow list \<Rightarrow> feedbackRow list"

fun insortBy :: "('a \<Rightarrow> 'a \<Rightarrow> bool) \<Rightarrow> 'a \<Rightarrow> 'a list \<Rightarrow> 'a list" where
  "insortBy before x [] = [x]"
| "insortBy before x (y # ys) =
     (if before x y then x # y # ys else y # insortBy before x ys)"

definition sortBy :: "('a \<Rightarrow> 'a \<Rightarrow> bool) \<Rightarrow> 'a list \<Rightarrow> 'a list" where
  "sortBy before xs = foldr (insortBy before) xs []"

definition rankedBefore :: "rankingRow \<Rightarrow> rankingRow \<Rightarrow> bool" where
  "rankedBefore a b =
     (ranked_at a > ranked_at b \<or> (ranked_at a = ranked_at b \<and> final_score a \<ge> final_score b))"

definition rankingSelected :: "store \<Rightarrow> string \<Rightarrow> int \<Rightarrow> int \<Rightarrow> rankingRow \<Rightarrow> bool" where
  "rankingSelected s u start end r =
     (rk_user_id r = u \<and> ranked_at r \<ge> start \<and> ranked_at r < end
      \<and> (\<exists>vm \<in> set (video_metadata s). mdVideoId vm = rk_video_id r))"

definition queryRankings :: "rowOrder \<Rightarrow> store \<Rightarrow> string \<Rightarrow> int \<Rightarrow> int \<Rightarrow> rankingRow list" where
  "queryRankings ord s u start end =
     sortBy rankedBefore (rankingRows ord (filter (rankingSelected s u start end) (rankings s)))"

definition feedbackSelected :: "string \<Rightarrow> int \<Rightarrow> int \<Rightarrow> feedbackRow \<Rightarrow> bool" where
  "feedbackSelected u start end fb =
     (fb_user_id fb = u \<and> provided_at fb \<ge> start \<and> provided_at fb < end)"

definition queryFeedback :: "rowOrder \<Rightarrow> store \<Rightarrow> string \<Rightarrow> int \<Rightarrow> int \<Rightarrow> feedbackRow list" where
  "queryFeedback ord s u start end =
     feedbackRows ord (filter (feedbackSelected u start end) (feedback s))"

text \<open>Two orders that a database can choose: the rows as they lie in the table, and
  the feedback rows as the index \<^verbatim>\<open>idx_feedback_user_action\<close> on
  \<^verbatim>\<open>(user_id, action, provided_at DESC)\<close> yields them for one user.\<close>

fun strLess :: "string \<Rightarrow> string \<Rightarrow> bool" where
  "strLess [] [] = False"
| "strLess [] (b # bs) = True"
| "strLess (a # as) [] = False"
| "strLess (a # as) (b # bs) = (code a < code b \<or> (a = b \<and> strLess as bs))"

definition feedbackIndexBefore :: "feedbackRow \<Rightarrow> feedbackRow \<Rightarrow> bool" where
  "feedbackIndexBefore a b =
     (strLess (action a) (action b) \<or> (action a = action b \<and> provided_at a \<ge> provided_at b))"

definition tableOrder :: rowOrder where
  "tableOrder = \<lparr>rankingRows = (\<lambda>rs. rs), feedbackRows = (\<lambda>fbs. fbs)\<rparr>"

definition indexOrder :: rowOrder where
  "indexOrder = \<lparr>rankingRows = (\<lambda>rs. rs), feedbackRows = sortBy feedbackIndexBefore\<rparr>"

definition isRelevant :: "feedbackRow \<Rightarrow> bool" where
  "isRelevant fb = (action fb = ''watched'' \<or> label fb = Some ''watch_now'')"

definition buildRelevanceMap :: "feedbackRow list \<Rightarrow> (nat \<times> bool) list" where
  "buildRelevanceMap fbs = foldl (\<lambda>m fb. mapSet m (fb_link_id fb) (isRelevant fb)) [] fbs"

definition computePrecisionAtK :: "rankingRow list \<Rightarrow> (nat \<times> bool) list \<Rightarrow> nat \<Rightarrow> real" where
  "computePrecisionAtK rs relevanceMap k =
     (let topK = take k rs in
      if length topK = 0 then 0
      else real (length (filter (\<lambda>r. map_of relevanceMap (rk_link_id r) = Some True) topK))
             / real (length topK))"

text \<open>The precision that \<^verbatim>\<open>evaluate\<close> computes for \<open>k\<close>; it does so for 5, 10 and 20.\<close>

definition precisionAt :: "rowOrder \<Rightarrow> store \<Rightarrow> string \<Rightarrow> int \<Rightarrow> int \<Rightarrow> nat \<Rightarrow> real" where
  "precisionAt ord s u start end k =
     computePrecisionAtK (queryRankings ord s u start end)
       (buildRelevanceMap (queryFeedback ord s u start end)) k"

record EvaluationMetrics =
  precisionAt5 :: real
  precisionAt10 :: real
  precisionAt20 :: real

definition evaluate :: "rowOrder \<Rightarrow> store \<Rightarrow> string \<Rightarrow> int \<Rightarrow> int \<Rightarrow> EvaluationMetrics" where
  "evaluate ord s u start end =
     \<lparr>precisionAt5 = precisionAt ord s u start end 5,
      precisionAt10 = precisionAt ord s u start end 10,
      precisionAt20 = precisionAt ord s u start end 20\<rparr>"

section \<open>Auxiliary notions for the proofs\<close>

text \<open>The characters that the urlencoded serializer can emit, and the characters that
  the URL parser leaves in place inside a query.\<close>

definition safeChar :: "char \<Rightarrow> bool" where
  "safeChar c = (isAlnum c \<or> c \<in> set ''*-._+%'')"

definition plainChar :: "char \<Rightarrow> bool" where
  "plainChar c = (c \<noteq> CHR ''#'' \<and> \<not> isTabOrNewline c \<and> \<not> isSpace c)"

text \<open>A run of \<open>n\<close> calls of \<^verbatim>\<open>getVideoMetadata\<close> on one client, each of which
  fails in its first batch, so that no batch succeeds in between, takes the breaker
  from \<open>c\<close> to \<open>c'\<close>; between two calls the world may change in any way.\<close>

inductive failingCalls ::
  "config \<Rightarrow> upstream \<Rightarrow> nat \<Rightarrow> CircuitBreakerState \<Rightarrow> CircuitBreakerState \<Rightarrow> bool"
  for cfg :: config and up :: upstream where
  none: "failingCalls cfg up 0 c c"
| more: "failingCalls cfg up n c c1 \<Longrightarrow>
         probeCache w videoIds = (results, uncachedIds) \<Longrightarrow>
         fetchVideoMetadataBatch up (take (batchSize cfg) uncachedIds) w = (Inl e, w') \<Longrightarrow>
         getVideoMetadata cfg up videoIds c1 w = Some (Inl e, c2, w') \<Longrightarrow>
         failingCalls cfg up (Suc n) c c2"

text \<open>The breaker leaves \<open>Closed\<close> only with the failure count at the threshold.\<close>

definition breakerInv :: "config \<Rightarrow> CircuitBreakerState \<Rightarrow> bool" where
  "breakerInv cfg c = (state c \<noteq> Closed \<longrightarrow> failures c \<ge> failureThreshold cfg)"

text \<open>The \<^verbatim>\<open>email_count\<close> of a sender, 0 when there is no SenderStats row.\<close>

definition senderCount :: "store \<Rightarrow> string \<Rightarrow> string \<Rightarrow> int" where
  "senderCount s u e = (case senderStatsOf s u e of Some r \<Rightarrow> email_count r | None \<Rightarrow> 0)"

text \<open>Whether the last feedback row read for a link marks it relevant.\<close>

definition lastRelevant :: "feedbackRow list \<Rightarrow> nat \<Rightarrow> bool" where
  "lastRelevant fbs l =
     (case filter (\<lambda>fb. fb_link_id fb = l) fbs of [] \<Rightarrow> False | xs \<Rightarrow> isRelevant (last xs))"

text \<open>An order of rows neither drops nor adds a row.\<close>

definition keepsRows :: "rowOrder \<Rightarrow> bool" where
  "keepsRows ord =
     ((\<forall>rs. mset (rankingRows ord rs) = mset rs) \<and> (\<forall>fbs. mset (feedbackRows ord fbs) = mset fbs))"

section \<open>The claims in the specification's words\<close>

text \<open>Precision at k as the specification words it: the rankings of the range ordered
  by \<^verbatim>\<open>final_score\<close> descending, then \<^verbatim>\<open>ranked_at\<close> descending; a ranking counts when
  some feedback row of its link has the action \<^verbatim>\<open>watched\<close> or the label
  \<^verbatim>\<open>watch_now\<close>; the count over the first k is divided by min(k, number of rankings).\<close>

definition specRankedBefore :: "rankingRow \<Rightarrow> rankingRow \<Rightarrow> bool" where
  "specRankedBefore a b =
     (final_score a > final_score b \<or> (final_score a = final_score b \<and> ranked_at a \<ge> ranked_at b))"

definition specPrecisionOf :: "rankingRow list \<Rightarrow> feedbackRow list \<Rightarrow> nat \<Rightarrow> real" where
  "specPrecisionOf rs fbs k =
     real (length (filter (\<lambda>r. \<exists>fb \<in> set fbs. fb_link_id fb = rk_link_id r \<and> isRelevant fb)
                     (take k rs)))
       / real (min k (length rs))"

definition specPrecisionAt :: "rowOrder \<Rightarrow> store \<Rightarrow> string \<Rightarrow> int \<Rightarrow> int \<Rightarrow> nat \<Rightarrow> real" where
  "specPrecisionAt ord s u start end k =
     specPrecisionOf
       (sortBy specRankedBefore
          (rankingRows ord (filter (rankingSelected s u start end) (rankings s))))
       (queryFeedback ord s u start end) k"

text \<open>The Enrich jobs as the specification words them: one per inserted link whose
  video id has no VideoMetadata row, carrying that link's id and video id.\<close>

definition specEnrichJobs :: "store \<Rightarrow> string \<Rightarrow> linkRow list \<Rightarrow> VideoEnrichJobData list" where
  "specEnrichJobs s u newLinks =
     map (\<lambda>l. \<lparr>jobUserId = u, jobLinkId = ln_id l, jobVideoId = ln_video_id l\<rparr>)
       (filter (\<lambda>l. ln_video_id l \<notin> mdVideoId ` set (video_metadata s)) newLinks)"

section \<open>Example inputs\<close>

definition exId :: string where
  "exId = ''dQw4w9WgXcQ''"

definition exMetadata :: VideoMetadata where
  "exMetadata =
     \<lparr>mdVideoId = ''dQw4w9WgXcQ'', title = ''Intro to Python'', channelId = ''UC1'',
      channelTitle = ''Channel'', publishedAt = 0, durationSeconds = Some 3730\<rparr>"

definition exWorld :: world where
  "exWorld = \<lparr>clock = 0, apiCalls = 0, sleeps = [], cache = []\<rparr>"

definition exCachedWorld :: world where
  "exCachedWorld =
     \<lparr>clock = 10000, apiCalls = 0, sleeps = [], cache = [(''dQw4w9WgXcQ'', exMetadata)]\<rparr>"


definition exOpenBreaker :: CircuitBreakerState where
  "exOpenBreaker = \<lparr>state = Open, failures = 3, lastFailure = Some 7000\<rparr>"

definition exServerError :: apiError where
  "exServerError =
     \<lparr>errCode = Some 500, errStatus = Some 500, retryAfter = None,
      errMessage = Some ''Backend Error''\<rparr>"

definition exForbidden :: apiError where
  "exForbidden =
     \<lparr>errCode = Some 403, errStatus = Some 403, retryAfter = None,
      errMessage = Some ''Forbidden''\<rparr>"

definition exDown :: upstream where
  "exDown n ids = Failure exServerError"

definition exDenied :: upstream where
  "exDenied n ids = Failure exForbidden"

definition exUp :: upstream where
  "exUp n ids = Items (map (\<lambda>i. \<lparr>itemId = Some i, itemSnippet = Some exMetadata\<rparr>) ids)"

definition exUser :: userRow where
  "exUser = \<lparr>u_id = ''u1'', gmail_access_token = ''at'', gmail_refresh_token = None\<rparr>"

definition exJob :: EmailProcessJobData where
  "exJob =
     \<lparr>userId = ''u1'', messageId = ''m1'', threadId = ''t1'',
      metadata = \<lparr>senderEmail = ''ann@example.com'', senderName = Some ''Ann'',
                  subject = Some ''Watch this'', receivedAt = 1000, snippet = ''Watch this'',
                  labels = [''INBOX'']\<rparr>\<rparr>"

text \<open>A store that already holds the metadata of the example video.\<close>

definition exStore :: store where
  "exStore =
     \<lparr>users = [exUser], emails = [], youtube_links = [], video_metadata = [exMetadata],
      sender_stats = [], rankings = [], feedback = [], nextId = 0, videoEnrichQueue = []\<rparr>"

text \<open>Three messages: one with a link to the example video, one with links to two
  videos, one without links. The bodies are the base64 of
  \<^verbatim>\<open>youtu.be/dQw4w9WgXcQ\<close>, of \<^verbatim>\<open>youtu.be/dQw4w9WgXcQ youtu.be/abcdefghijk\<close> and of
  \<^verbatim>\<open>hello\<close>.\<close>

definition exBase64 :: "string \<Rightarrow> string" where
  "exBase64 d =
     (if d = ''eW91dHUuYmUvZFF3NHc5V2dYY1E='' then ''youtu.be/dQw4w9WgXcQ''
      else if d = ''eW91dHUuYmUvZFF3NHc5V2dYY1EgeW91dHUuYmUvYWJjZGVmZ2hpams=''
      then ''youtu.be/dQw4w9WgXcQ youtu.be/abcdefghijk''
      else if d = ''aGVsbG8='' then ''hello''
      else [])"

definition exLinkEnv :: env where
  "exLinkEnv =
     \<lparr>decrypt = Some,
      getMessage = (\<lambda>accessToken refreshToken u m.
         Some \<lparr>payload = Some (Part (Some ''eW91dHUuYmUvZFF3NHc5V2dYY1E='') [])\<rparr>),
      base64 = exBase64\<rparr>"

definition exTwoLinkEnv :: env where
  "exTwoLinkEnv =
     \<lparr>decrypt = Some,
      getMessage = (\<lambda>accessToken refreshToken u m.
         Some \<lparr>payload = Some (Part None
           [Part (Some ''eW91dHUuYmUvZFF3NHc5V2dYY1EgeW91dHUuYmUvYWJjZGVmZ2hpams='') []])\<rparr>),
      base64 = exBase64\<rparr>"

definition exPlainEnv :: env where
  "exPlainEnv =
     \<lparr>decrypt = Some,
      getMessage = (\<lambda>accessToken refreshToken u m.
         Some \<lparr>payload = Some (Part (Some ''aGVsbG8='') [])\<rparr>),
      base64 = exBase64\<rparr>"

text \<open>Six rankings of one user, all with metadata: the oldest one has the highest
  score, and its link was watched.\<close>

definition exRanking :: "nat \<Rightarrow> real \<Rightarrow> int \<Rightarrow> rankingRow" where
  "exRanking i score t =
     \<lparr>rk_id = i, rk_user_id = ''u1'', rk_link_id = i, rk_video_id = ''dQw4w9WgXcQ'',
      final_score = score, ranked_at = t\<rparr>"

definition exSixRankings :: "rankingRow list" where
  "exSixRankings =
     [exRanking 1 0.9 100, exRanking 2 0.5 200, exRanking 3 0.4 300, exRanking 4 0.3 400,
      exRanking 5 0.2 500, exRanking 6 0.1 600]"

definition exWatched :: feedbackRow where
  "exWatched =
     \<lparr>fb_user_id = ''u1'', fb_link_id = 1, action = ''watched'', label = None,
      provided_at = 150\<rparr>"

definition exSixStore :: store where
  "exSixStore =
     \<lparr>users = [exUser], emails = [], youtube_links = [], video_metadata = [exMetadata],
      sender_stats = [], rankings = exSixRankings, feedback = [exWatched],
      nextId = 7, videoEnrichQueue = []\<rparr>"

text \<open>One ranking whose link was saved with the label \<^verbatim>\<open>watch_now\<close> and skipped
  later.\<close>

definition exLabelled :: feedbackRow where
  "exLabelled =
     \<lparr>fb_user_id = ''u1'', fb_link_id = 1, action = ''saved'', label = Some ''watch_now'',
      provided_at = 150\<rparr>"

definition exSkipped :: feedbackRow where
  "exSkipped =
     \<lparr>fb_user_id = ''u1'', fb_link_id = 1, action = ''skipped'', label = Some ''skip'',
      provided_at = 160\<rparr>"

definition exOverwriteStore :: store where
  "exOverwriteStore =
     \<lparr>users = [exUser], emails = [], youtube_links = [], video_metadata = [exMetadata],
      sender_stats = [], rankings = [exRanking 1 0.9 100],
      feedback = [exLabelled, exSkipped], nextId = 2, videoEnrichQueue = []\<rparr>"

text \<open>A message id of 255 characters followed by a space.\<close>

definition exLongIdJob :: EmailProcessJobData where
  "exLongIdJob = exJob\<lparr>messageId := replicate 255 (CHR ''m'') @ '' ''\<rparr>"

text \<open>A video published thirty days after the email that links to it was received.\<close>

definition exFutureContext :: RankingContext where
  "exFutureContext =
     \<lparr>rcUserId = ''u1'', rcSenderEmail = ''ann@example.com'', threadReplyCount = 1,
      emailReceivedAt = 0, videoPublishedAt = 2592000000, videoTitle = ''Intro to Python'',
      videoDescription = None, userLearningGoals = None\<rparr>"

section \<open>Percent-encoding and the canonical URL\<close>


lemma code_less_256: "code c < 256"
  by (simp add: code_def)

lemma code_char_of: "n < 256 \<Longrightarrow> code (char_of n) = n"
  by (simp add: code_def)

lemma char_of_code: "char_of (code c) = c"
  by (simp add: code_def)

lemma hexVal_hexDigit: "n < 16 \<Longrightarrow> hexVal (hexDigit n) = Some n"
  by (auto simp: hexVal_def hexDigit_def isDigit_def code_char_of)

lemma hexDigit_alnum: "n < 16 \<Longrightarrow> isAlnum (hexDigit n)"
  by (auto simp: hexDigit_def isAlnum_def isDigit_def isUpper_def isLower_def code_char_of)

lemma percentDecode_plain: "c \<noteq> CHR ''%'' \<Longrightarrow> percentDecode (c # r) = c # percentDecode r"
  by (cases r rule: percentDecode.cases) auto

lemma code_plus: "code (CHR ''+'') = 43" and code_percent: "code (CHR ''%'') = 37"
  and code_space: "code (CHR '' '') = 32"
  by (simp_all add: code_def)

lemma alnum_not_special: "isAlnum c \<Longrightarrow> c \<noteq> CHR ''+'' \<and> c \<noteq> CHR ''%'' \<and> c \<noteq> CHR '' ''"
  by (auto simp: isAlnum_def isDigit_def isUpper_def isLower_def code_def)

lemma urldecode_encodeByte: "urldecode (encodeByte c @ r) = c # urldecode r"
proof -
  consider "c = CHR '' ''" | "c \<noteq> CHR '' ''" "isAlnum c \<or> c = CHR ''*'' \<or> c = CHR ''-'' \<or> c = CHR ''.'' \<or> c = CHR ''_''"
    | "c \<noteq> CHR '' ''" "\<not> (isAlnum c \<or> c = CHR ''*'' \<or> c = CHR ''-'' \<or> c = CHR ''.'' \<or> c = CHR ''_'')"
    by blast
  then show ?thesis
  proof cases
    case 1
    then show ?thesis by (simp add: urldecode_def encodeByte_def plusToSpace_def percentDecode_plain)
  next
    case 2
    then have "c \<noteq> CHR ''+''" "c \<noteq> CHR ''%''" using alnum_not_special by auto
    with 2 show ?thesis by (simp add: urldecode_def encodeByte_def plusToSpace_def percentDecode_plain)
  next
    case 3
    let ?h = "hexDigit (code c div 16)" and ?l = "hexDigit (code c mod 16)"
    have hl: "code c div 16 < 16" "code c mod 16 < 16" using code_less_256[of c] by auto
    have np: "?h \<noteq> CHR ''+''" "?l \<noteq> CHR ''+''"
      using hexDigit_alnum[OF hl(1)] hexDigit_alnum[OF hl(2)] alnum_not_special by auto
    have "char_of (16 * (code c div 16) + code c mod 16) = c"
      by (simp add: char_of_code)
    with 3 np show ?thesis
      by (simp add: urldecode_def encodeByte_def plusToSpace_def hexVal_hexDigit hl)
  qed
qed

lemma urldecode_urlencode: "urldecode (urlencode s) = s"
proof (induction s)
  case Nil
  show ?case by (simp add: urldecode_def urlencode_def plusToSpace_def)
next
  case (Cons c s)
  have "urlencode (c # s) = encodeByte c @ urlencode s" by (simp add: urlencode_def)
  then show ?case using Cons by (simp add: urldecode_encodeByte)
qed


lemma encodeByte_safe: "x \<in> set (encodeByte c) \<Longrightarrow> safeChar x"
proof -
  have "code c div 16 < 16" "code c mod 16 < 16" using code_less_256[of c] by auto
  then show "x \<in> set (encodeByte c) \<Longrightarrow> safeChar x"
    by (auto simp: encodeByte_def safeChar_def hexDigit_alnum split: if_splits)
qed

lemma urlencode_safe: "x \<in> set (urlencode s) \<Longrightarrow> safeChar x"
  by (auto simp: urlencode_def encodeByte_safe)

lemma idChar_safe: "isIdChar c \<Longrightarrow> safeChar c"
  by (auto simp: isIdChar_def safeChar_def)

lemma safe_not_delim:
  "safeChar c \<Longrightarrow> c \<noteq> CHR ''&'' \<and> c \<noteq> CHR ''='' \<and> c \<noteq> CHR ''#'' \<and> \<not> isTabOrNewline c \<and> \<not> isSpace c"
  by (auto simp: safeChar_def isAlnum_def isDigit_def isUpper_def isLower_def isTabOrNewline_def
      isSpace_def code_def)

lemma safe_plain: "safeChar c \<Longrightarrow> plainChar c"
  using safe_not_delim by (simp add: plainChar_def)

lemma delim_plain: "plainChar (CHR ''='')" "plainChar (CHR ''&'')"
  by (simp_all add: plainChar_def isTabOrNewline_def isSpace_def code_def)

lemma idChar_plain: "isIdChar c \<Longrightarrow> c \<noteq> CHR ''+'' \<and> c \<noteq> CHR ''%'' \<and> c \<noteq> CHR '' ''"
  by (auto simp: isIdChar_def dest: alnum_not_special)

lemma urlencode_id: "list_all isIdChar v \<Longrightarrow> urlencode v = v"
proof (induction v)
  case Nil
  show ?case by (simp add: urlencode_def)
next
  case (Cons c v)
  then have "encodeByte c = [c]"
    using idChar_plain[of c] by (auto simp: encodeByte_def isIdChar_def)
  with Cons show ?case by (simp add: urlencode_def)
qed

lemma urldecode_id: "list_all isIdChar v \<Longrightarrow> urldecode v = v"
  using urldecode_urlencode[of v] by (simp add: urlencode_id)

lemma split_on_none: "c \<notin> set a \<Longrightarrow> split_on c a = [a]"
  by (induction a) auto

lemma split_on_first: "c \<notin> set a \<Longrightarrow> split_on c (a @ c # b) = a # split_on c b"
  by (induction a) auto

lemma parsePair_kv:
  "CHR ''='' \<notin> set k \<Longrightarrow> parsePair (k @ CHR ''='' # v) = (urldecode k, urldecode v)"
proof -
  assume k: "CHR ''='' \<notin> set k"
  then have "takeWhile (\<lambda>c. c \<noteq> CHR ''='') (k @ CHR ''='' # v) = k"
    by (induction k) auto
  then show ?thesis by (simp add: parsePair_def Let_def)
qed

lemma urldecode_v: "urldecode ''v'' = ''v''" and urldecode_list: "urldecode ''list'' = ''list''"
  and urlencode_v: "urlencode ''v'' = ''v''" and urlencode_list: "urlencode ''list'' = ''list''"
  by code_simp+

lemma safe_string: "\<forall>x \<in> set s. safeChar x \<Longrightarrow>
    CHR ''&'' \<notin> set s \<and> CHR ''='' \<notin> set s \<and> CHR ''#'' \<notin> set s"
  using safe_not_delim by blast

lemma parseQuery_v:
  assumes "list_all isIdChar v" "v \<noteq> []"
  shows "parseQuery (''v='' @ v) = [(''v'', v)]"
proof -
  have s: "\<forall>x \<in> set v. safeChar x" using assms(1) by (auto simp: list_all_iff idChar_safe)
  then have "CHR ''&'' \<notin> set (''v='' @ v)" using safe_string[of v] by simp
  then have "split_on (CHR ''&'') (''v='' @ v) = [''v='' @ v]" by (rule split_on_none)
  moreover have "parsePair (''v'' @ CHR ''='' # v) = (urldecode ''v'', urldecode v)"
    by (rule parsePair_kv) simp
  ultimately show ?thesis using assms by (simp add: parseQuery_def urldecode_v urldecode_id)
qed

lemma parseQuery_v_list:
  assumes "list_all isIdChar v" "v \<noteq> []"
  shows "parseQuery (''v='' @ v @ ''&list='' @ urlencode p) = [(''v'', v), (''list'', p)]"
proof -
  have sv: "\<forall>x \<in> set v. safeChar x" using assms(1) by (auto simp: list_all_iff idChar_safe)
  have sp: "\<forall>x \<in> set (urlencode p). safeChar x" using urlencode_safe by blast
  have a: "CHR ''&'' \<notin> set (''v='' @ v)" using safe_string[OF sv] by simp
  have b: "CHR ''&'' \<notin> set (''list='' @ urlencode p)" using safe_string[OF sp] by simp
  have "split_on (CHR ''&'') ((''v='' @ v) @ CHR ''&'' # (''list='' @ urlencode p))
          = (''v='' @ v) # split_on (CHR ''&'') (''list='' @ urlencode p)"
    using a by (rule split_on_first)
  then have sp1: "split_on (CHR ''&'') (''v='' @ v @ ''&list='' @ urlencode p)
          = [''v='' @ v, ''list='' @ urlencode p]"
    using split_on_none[OF b] by simp
  have p1: "parsePair (''v'' @ CHR ''='' # v) = (urldecode ''v'', urldecode v)"
    by (rule parsePair_kv) simp
  have p2: "parsePair (''list'' @ CHR ''='' # urlencode p) = (urldecode ''list'', urldecode (urlencode p))"
    by (rule parsePair_kv) simp
  show ?thesis
    unfolding parseQuery_def sp1 using p1 p2 assms
    by (simp add: urldecode_v urldecode_list urldecode_id urldecode_urlencode)
qed


lemma parseHost_www: "parseHost ''www.youtube.com'' = Some ''www.youtube.com''"
  by code_simp

lemma parsePath_watch: "parsePath ''/watch'' = ''/watch''"
  by code_simp

lemma parseURL_watch:
  assumes "\<forall>x \<in> set q. plainChar x"
  shows "parseURL (''https://www.youtube.com/watch?'' @ q) =
           Some \<lparr>hostname = ''www.youtube.com'', pathname = ''/watch'',
                 searchParams = parseQuery q\<rparr>"
proof -
  have fq: "filter (\<lambda>c. \<not> isTabOrNewline c) q = q"
    using assms by (simp add: filter_id_conv plainChar_def)
  have f: "filter (\<lambda>c. \<not> isTabOrNewline c) (''https://www.youtube.com/watch?'' @ q)
             = ''https://www.youtube.com/watch?'' @ q"
    unfolding filter_append fq by (simp add: isTabOrNewline_def code_def)
  have tq: "takeWhile (\<lambda>c. c \<noteq> CHR ''#'') q = q"
    using assms by (simp add: takeWhile_eq_all_conv plainChar_def)
  show ?thesis
    unfolding parseURL_def f
    by (simp add: startsWith_def isSlash_def backslash_def endsAuthority_def endsPath_def
        parseHost_www parsePath_watch tq)
qed

lemma trim_id: "s \<noteq> [] \<Longrightarrow> \<not> isSpace (hd s) \<Longrightarrow> \<not> isSpace (last s) \<Longrightarrow> trim s = s"
proof -
  assume a: "s \<noteq> []" "\<not> isSpace (hd s)" "\<not> isSpace (last s)"
  have d: "dropWhile P xs = xs" if "xs \<noteq> []" "\<not> P (hd xs)" for P :: "char \<Rightarrow> bool" and xs
    using that by (cases xs) auto
  have "dropWhile isSpace s = s" using a by (intro d)
  moreover have "dropWhile isSpace (rev s) = rev s" using a by (intro d) (simp_all add: hd_rev)
  ultimately show ?thesis by (simp add: trim_def)
qed

lemma normalizeUrl_watch:
  assumes "\<forall>x \<in> set q. plainChar x" "q \<noteq> []"
  shows "normalizeUrl (''https://www.youtube.com/watch?'' @ q) = ''https://www.youtube.com/watch?'' @ q"
proof -
  have "\<not> isSpace (last q)" using assms by (auto simp: plainChar_def)
  then have "trim (''https://www.youtube.com/watch?'' @ q) = ''https://www.youtube.com/watch?'' @ q"
    using assms(2) by (intro trim_id) (simp_all add: isSpace_def code_def)
  then show ?thesis by (simp add: normalizeUrl_def startsWith_def)
qed

lemma canonicalizeUrl_watch:
  assumes "\<forall>x \<in> set q. plainChar x" "q \<noteq> []"
  shows "canonicalizeUrl (''https://www.youtube.com/watch?'' @ q) =
           canonicalizeYoutubeCom \<lparr>hostname = ''www.youtube.com'', pathname = ''/watch'',
                 searchParams = parseQuery q\<rparr>"
  unfolding canonicalizeUrl_def normalizeUrl_watch[OF assms] parseURL_watch[OF assms(1)]
  by simp

lemma valid_nonempty: "isValidVideoId v \<Longrightarrow> v \<noteq> [] \<and> list_all isIdChar v"
  by (auto simp: isValidVideoId_def)

lemma serialize_v: "list_all isIdChar v \<Longrightarrow> serializeParams [(''v'', v)] = ''v='' @ v"
  by (simp add: serializeParams_def urlencode_v urlencode_id)

lemma serialize_v_list:
  "list_all isIdChar v \<Longrightarrow>
     serializeParams [(''v'', v), (''list'', p)] = ''v='' @ v @ ''&list='' @ urlencode p"
  by (simp add: serializeParams_def urlencode_v urlencode_list urlencode_id)

lemma canonicalizeYoutubeCom_v:
  assumes "isValidVideoId v"
  shows "canonicalizeYoutubeCom \<lparr>hostname = h, pathname = ''/watch'',
           searchParams = [(''v'', v)]\<rparr> = Some (videoResult v)"
  using assms valid_nonempty[OF assms]
  by (simp add: canonicalizeYoutubeCom_def has_def get_def truthy_def videoResult_def serialize_v)

lemma canonicalizeYoutubeCom_v_list:
  assumes "isValidVideoId v" "p \<noteq> []"
  shows "canonicalizeYoutubeCom \<lparr>hostname = h, pathname = ''/watch'',
           searchParams = [(''v'', v), (''list'', p)]\<rparr> =
         Some \<lparr>canonicalUrl = ''https://www.youtube.com/watch?v='' @ v @ ''&list='' @ urlencode p,
               videoId = v, playlistId = Some p, type = playlist\<rparr>"
  using assms valid_nonempty[OF assms(1)]
  by (simp add: canonicalizeYoutubeCom_def has_def get_def truthy_def serialize_v_list)

lemma plain_v: "list_all isIdChar v \<Longrightarrow> \<forall>x \<in> set (''v='' @ v). plainChar x"
proof -
  assume "list_all isIdChar v"
  then have "\<forall>x \<in> set v. plainChar x" by (simp add: list_all_iff idChar_safe safe_plain)
  moreover have "\<forall>x \<in> set ''v=''. plainChar x"
    by (simp add: plainChar_def isTabOrNewline_def isSpace_def code_def)
  ultimately show ?thesis by (metis Un_iff set_append)
qed

lemma plain_v_list:
  "list_all isIdChar v \<Longrightarrow> \<forall>x \<in> set (''v='' @ v @ ''&list='' @ urlencode p). plainChar x"
proof -
  assume v: "list_all isIdChar v"
  have l: "\<forall>x \<in> set ''&list=''. plainChar x"
    by (simp add: plainChar_def isTabOrNewline_def isSpace_def code_def)
  have p: "\<forall>x \<in> set (urlencode p). plainChar x" using urlencode_safe safe_plain by blast
  show ?thesis using plain_v[OF v] l p by (simp only: set_append ball_Un) blast
qed

lemma canonicalize_videoResult:
  assumes "isValidVideoId v"
  shows "canonicalizeUrl (canonicalUrl (videoResult v)) = Some (videoResult v)"
proof -
  note vn = valid_nonempty[OF assms]
  let ?q = "''v='' @ v"
  have pl: "\<forall>x \<in> set ?q. plainChar x" using plain_v vn by blast
  have ne: "?q \<noteq> []" by simp
  have pq: "parseQuery ?q = [(''v'', v)]" using parseQuery_v vn by blast
  have "canonicalizeUrl (''https://www.youtube.com/watch?'' @ ?q) =
          canonicalizeYoutubeCom \<lparr>hostname = ''www.youtube.com'', pathname = ''/watch'',
                 searchParams = parseQuery ?q\<rparr>"
    using pl ne by (rule canonicalizeUrl_watch)
  then have "canonicalizeUrl (''https://www.youtube.com/watch?'' @ ?q) = Some (videoResult v)"
    unfolding pq canonicalizeYoutubeCom_v[OF assms] .
  then show ?thesis by (simp add: videoResult_def)
qed

lemma canonicalize_playlistResult:
  assumes "isValidVideoId v" "p \<noteq> []"
  shows "canonicalizeUrl (''https://www.youtube.com/watch?v='' @ v @ ''&list='' @ urlencode p) =
         Some \<lparr>canonicalUrl = ''https://www.youtube.com/watch?v='' @ v @ ''&list='' @ urlencode p,
               videoId = v, playlistId = Some p, type = playlist\<rparr>"
proof -
  note vn = valid_nonempty[OF assms(1)]
  let ?q = "''v='' @ v @ ''&list='' @ urlencode p"
  have pl: "\<forall>x \<in> set ?q. plainChar x" using plain_v_list vn by blast
  have ne: "?q \<noteq> []" by simp
  have pq: "parseQuery ?q = [(''v'', v), (''list'', p)]"
    using parseQuery_v_list vn by blast
  have "canonicalizeUrl (''https://www.youtube.com/watch?'' @ ?q) =
          canonicalizeYoutubeCom \<lparr>hostname = ''www.youtube.com'', pathname = ''/watch'',
                 searchParams = parseQuery ?q\<rparr>"
    using pl ne by (rule canonicalizeUrl_watch)
  then show ?thesis
    unfolding pq canonicalizeYoutubeCom_v_list[OF assms] by simp
qed


lemma canonicalize_cases:
  assumes "canonicalizeUrl u = Some c" "videoId c \<noteq> []"
  shows "isValidVideoId (videoId c) \<and>
         (c = videoResult (videoId c) \<or>
          (\<exists>p. p \<noteq> [] \<and>
             c = \<lparr>canonicalUrl = ''https://www.youtube.com/watch?v='' @ videoId c @ ''&list='' @ urlencode p,
                   videoId = videoId c, playlistId = Some p, type = playlist\<rparr>))"
proof -
  obtain urlObj where p: "parseURL (normalizeUrl u) = Some urlObj"
    using assms(1) by (auto simp: canonicalizeUrl_def split: option.splits)
  show ?thesis
  proof (cases "(hostname urlObj = ''youtu.be'' \<or> hostname urlObj = ''www.youtu.be'')
                \<and> isValidVideoId (drop 1 (pathname urlObj))")
    case True
    then have "c = videoResult (drop 1 (pathname urlObj))"
      using assms(1) p by (simp add: canonicalizeUrl_def)
    with True show ?thesis by (simp add: videoResult_def)
  next
    case False
    then have y: "canonicalizeYoutubeCom urlObj = Some c"
      using assms(1) p by (simp add: canonicalizeUrl_def split: if_splits)
    let ?ps = "searchParams urlObj"
    have np: "\<not> (pathname urlObj = ''/playlist'' \<and> has ?ps ''list'')"
      using y assms(2) by (auto simp: canonicalizeYoutubeCom_def Let_def)
    show ?thesis
    proof (cases "pathname urlObj = ''/watch'' \<and> has ?ps ''v'' \<and> isValidVideoId (the (get ?ps ''v''))")
      case True
      let ?v = "the (get ?ps ''v'')"
      have vn: "list_all isIdChar ?v" using True valid_nonempty by blast
      show ?thesis
      proof (cases "truthy (get ?ps ''list'')")
        case None
        then have "c = videoResult ?v"
          using y np True vn
          by (auto simp: canonicalizeYoutubeCom_def Let_def videoResult_def serialize_v)
        with True show ?thesis by (simp add: videoResult_def)
      next
        case (Some pl)
        then have ne: "pl \<noteq> []" by (auto simp: truthy_def split: option.splits if_splits)
        have "c = \<lparr>canonicalUrl = ''https://www.youtube.com/watch?v='' @ ?v @ ''&list='' @ urlencode pl,
                   videoId = ?v, playlistId = Some pl, type = playlist\<rparr>"
          using y np True vn Some
          by (auto simp: canonicalizeYoutubeCom_def Let_def serialize_v_list)
        with True ne show ?thesis by auto
      qed
    next
      case False
      then have "c = videoResult (videoId c) \<and> isValidVideoId (videoId c)"
        using y np
        by (auto simp: canonicalizeYoutubeCom_def Let_def videoResult_def split: if_splits)
      then show ?thesis by simp
    qed
  qed
qed

text \<open>
  C7. Canonicalization is idempotent on video results: when \<^verbatim>\<open>canonicalizeUrl\<close> returns
  a result whose video id matches \<^verbatim>\<open>^[A-Za-z0-9_-]{11}$\<close>, canonicalizing the canonical URL
  of that result returns the same result again.
\<close>

theorem canonicalizeUrl_idempotent: "canonicalizeUrl u = Some c \<Longrightarrow> isValidVideoId (videoId c) \<Longrightarrow>
   canonicalizeUrl (canonicalUrl c) = Some c"
proof -
  assume a: "canonicalizeUrl u = Some c" and v: "isValidVideoId (videoId c)"
  then have "videoId c \<noteq> []" using valid_nonempty by blast
  from canonicalize_cases[OF a this]
  consider "c = videoResult (videoId c)"
    | p where "p \<noteq> []" "c = \<lparr>canonicalUrl = ''https://www.youtube.com/watch?v='' @ videoId c @ ''&list='' @ urlencode p,
                   videoId = videoId c, playlistId = Some p, type = playlist\<rparr>"
    by blast
  then show ?thesis
  proof cases
    case 1
    then show ?thesis using canonicalize_videoResult[OF v] by simp
  next
    case 2
    then show ?thesis using canonicalize_playlistResult[OF v 2(1)] by (metis CanonicalizedUrl.select_convs(1))
  qed
qed


lemma parseURL_canonical:
  assumes "isValidVideoId v"
  shows "parseURL (''https://www.youtube.com/watch?v='' @ v @
            (case pl of Some p \<Rightarrow> ''&list='' @ urlencode p | None \<Rightarrow> [])) =
         Some \<lparr>hostname = ''www.youtube.com'', pathname = ''/watch'',
               searchParams = (''v'', v) # (case pl of Some p \<Rightarrow> [(''list'', p)] | None \<Rightarrow> [])\<rparr>"
proof (cases pl)
  case None
  note vn = valid_nonempty[OF assms]
  have "parseURL (''https://www.youtube.com/watch?'' @ (''v='' @ v)) =
      Some \<lparr>hostname = ''www.youtube.com'', pathname = ''/watch'',
                 searchParams = parseQuery (''v='' @ v)\<rparr>"
    using plain_v vn by (intro parseURL_watch) blast
  then show ?thesis using None parseQuery_v[of v] vn by simp
next
  case (Some p)
  note vn = valid_nonempty[OF assms]
  let ?q = "''v='' @ v @ ''&list='' @ urlencode p"
  have "parseURL (''https://www.youtube.com/watch?'' @ ?q) =
      Some \<lparr>hostname = ''www.youtube.com'', pathname = ''/watch'',
                 searchParams = parseQuery ?q\<rparr>"
    using plain_v_list vn by (intro parseURL_watch) blast
  then show ?thesis using Some parseQuery_v_list[of v p] vn by simp
qed

lemma canonicalizeYoutubeCom_watch:
  assumes "pathname urlObj = ''/watch''" "get (searchParams urlObj) ''v'' = Some v"
    "isValidVideoId v"
  shows "canonicalizeYoutubeCom urlObj =
     Some \<lparr>canonicalUrl = ''https://www.youtube.com/watch?v='' @ v @
               (case truthy (get (searchParams urlObj) ''list'') of
                  Some p \<Rightarrow> ''&list='' @ urlencode p | None \<Rightarrow> []),
           videoId = v, playlistId = truthy (get (searchParams urlObj) ''list''),
           type = (if truthy (get (searchParams urlObj) ''list'') \<noteq> None then playlist else video)\<rparr>"
proof -
  note vn = valid_nonempty[OF assms(3)]
  have h: "has (searchParams urlObj) ''v''" using assms(2) by (simp add: has_def get_def)
  show ?thesis
  proof (cases "truthy (get (searchParams urlObj) ''list'')")
    case None
    then show ?thesis using assms h vn
      by (simp add: canonicalizeYoutubeCom_def Let_def serialize_v)
  next
    case (Some p)
    then show ?thesis using assms h vn
      by (simp add: canonicalizeYoutubeCom_def Let_def serialize_v_list)
  qed
qed

text \<open>
  C8. The claim speaks of every URL that contains a valid \<^verbatim>\<open>v=ID\<close>. On the path
  \<^verbatim>\<open>/playlist\<close> the playlist branch, which comes first, answers: the canonical URL has
  no \<^verbatim>\<open>v\<close> parameter at all, and since that branch writes the decoded playlist id
  into the URL as it is, a playlist id that holds \<^verbatim>\<open>&utm_source=news\<close> puts a second
  parameter into the canonical URL.
\<close>

theorem canonicalizeUrl_playlist_path_counterexample:
  "isValidVideoId ''dQw4w9WgXcQ''
   \<and> canonicalizeUrl ''https://www.youtube.com/playlist?list=PLx&v=dQw4w9WgXcQ&utm_source=y''
       = Some \<lparr>canonicalUrl = ''https://www.youtube.com/playlist?list=PLx'', videoId = [],
                playlistId = Some ''PLx'', type = playlist\<rparr>
   \<and> map_option searchParams (parseURL ''https://www.youtube.com/playlist?list=PLx'')
       = Some [(''list'', ''PLx'')]
   \<and> canonicalizeUrl
         ''https://www.youtube.com/playlist?v=dQw4w9WgXcQ&list=PL%26utm_source%3Dnews''
       = Some \<lparr>canonicalUrl = ''https://www.youtube.com/playlist?list=PL&utm_source=news'',
                videoId = [], playlistId = Some ''PL&utm_source=news'', type = playlist\<rparr>
   \<and> map_option searchParams
         (parseURL ''https://www.youtube.com/playlist?list=PL&utm_source=news'')
       = Some [(''list'', ''PL''), (''utm_source'', ''news'')]"
  by code_simp

text \<open>
  C8 (amended). For a URL on \<^verbatim>\<open>youtube.com\<close> or \<^verbatim>\<open>www.youtube.com\<close> with the path
  \<^verbatim>\<open>/watch\<close> whose first \<^verbatim>\<open>v\<close> parameter is a valid id, whatever other query
  parameters it has, the canonical URL is \<^verbatim>\<open>https://www.youtube.com/watch?v=ID\<close>,
  followed by \<^verbatim>\<open>&list=PID\<close> exactly when the input has a non-empty \<^verbatim>\<open>list\<close>
  parameter; read back, its query holds these parameters and no others. The input of
  scenario S1 yields the stated result.
\<close>

theorem canonicalizeUrl_keeps_v_and_list:
  "(parseURL (normalizeUrl u) = Some urlObj
      \<longrightarrow> hostname urlObj = ''youtube.com'' \<or> hostname urlObj = ''www.youtube.com''
      \<longrightarrow> pathname urlObj = ''/watch''
      \<longrightarrow> get (searchParams urlObj) ''v'' = Some v
      \<longrightarrow> isValidVideoId v
      \<longrightarrow> (\<exists>c. canonicalizeUrl u = Some c \<and> videoId c = v
             \<and> playlistId c = truthy (get (searchParams urlObj) ''list'')
             \<and> canonicalUrl c = ''https://www.youtube.com/watch?v='' @ v @
                  (case playlistId c of Some p \<Rightarrow> ''&list='' @ urlencode p | None \<Rightarrow> [])
             \<and> parseURL (canonicalUrl c) =
                  Some \<lparr>hostname = ''www.youtube.com'', pathname = ''/watch'',
                        searchParams =
                          (''v'', v) # (case playlistId c of Some p \<Rightarrow> [(''list'', p)] | None \<Rightarrow> [])\<rparr>))
   \<and> canonicalizeUrl ''https://www.youtube.com/watch?v=dQw4w9WgXcQ&utm_source=x&feature=youtu.be''
       = Some \<lparr>canonicalUrl = ''https://www.youtube.com/watch?v=dQw4w9WgXcQ'',
                videoId = ''dQw4w9WgXcQ'', playlistId = None, type = video\<rparr>"
proof (intro conjI impI)
  assume p: "parseURL (normalizeUrl u) = Some urlObj"
    and h: "hostname urlObj = ''youtube.com'' \<or> hostname urlObj = ''www.youtube.com''"
    and w: "pathname urlObj = ''/watch''"
    and g: "get (searchParams urlObj) ''v'' = Some v"
    and v: "isValidVideoId v"
  let ?pl = "truthy (get (searchParams urlObj) ''list'')"
  let ?c = "\<lparr>canonicalUrl = ''https://www.youtube.com/watch?v='' @ v @
               (case ?pl of Some p \<Rightarrow> ''&list='' @ urlencode p | None \<Rightarrow> []),
           videoId = v, playlistId = ?pl,
           type = (if ?pl \<noteq> None then playlist else video)\<rparr>"
  have "hostname urlObj \<noteq> ''youtu.be''" "hostname urlObj \<noteq> ''www.youtu.be''"
    using h by auto
  then have "canonicalizeUrl u = canonicalizeYoutubeCom urlObj"
    using p h by (simp add: canonicalizeUrl_def)
  then have c: "canonicalizeUrl u = Some ?c"
    using canonicalizeYoutubeCom_watch[OF w g v] by simp
  have "parseURL (canonicalUrl ?c) =
          Some \<lparr>hostname = ''www.youtube.com'', pathname = ''/watch'',
                searchParams = (''v'', v) # (case ?pl of Some p \<Rightarrow> [(''list'', p)] | None \<Rightarrow> [])\<rparr>"
    using parseURL_canonical[OF v, of ?pl] by simp
  with c show "\<exists>c. canonicalizeUrl u = Some c \<and> videoId c = v
             \<and> playlistId c = ?pl
             \<and> canonicalUrl c = ''https://www.youtube.com/watch?v='' @ v @
                  (case playlistId c of Some p \<Rightarrow> ''&list='' @ urlencode p | None \<Rightarrow> [])
             \<and> parseURL (canonicalUrl c) =
                  Some \<lparr>hostname = ''www.youtube.com'', pathname = ''/watch'',
                        searchParams =
                          (''v'', v) # (case playlistId c of Some p \<Rightarrow> [(''list'', p)] | None \<Rightarrow> [])\<rparr>"
    by (intro exI[of _ ?c]) simp
next
  show "canonicalizeUrl ''https://www.youtube.com/watch?v=dQw4w9WgXcQ&utm_source=x&feature=youtu.be''
       = Some \<lparr>canonicalUrl = ''https://www.youtube.com/watch?v=dQw4w9WgXcQ'',
                videoId = ''dQw4w9WgXcQ'', playlistId = None, type = video\<rparr>"
    by code_simp
qed

lemma canonicalizeUrl_videoId:
  "canonicalizeUrl u = Some c \<Longrightarrow> videoId c \<noteq> [] \<Longrightarrow> isValidVideoId (videoId c)"
  using canonicalize_cases by blast

lemma addCanonical_valid:
  assumes "\<forall>c \<in> set acc. videoId c \<noteq> [] \<and> isValidVideoId (videoId c)"
  shows "\<forall>c \<in> set (addCanonical acc u). videoId c \<noteq> [] \<and> isValidVideoId (videoId c)"
  using assms canonicalizeUrl_videoId
  by (auto simp: addCanonical_def split: option.splits)

lemma foldl_addCanonical_valid:
  "\<forall>c \<in> set acc. videoId c \<noteq> [] \<and> isValidVideoId (videoId c) \<Longrightarrow>
   \<forall>c \<in> set (foldl addCanonical acc us). videoId c \<noteq> [] \<and> isValidVideoId (videoId c)"
proof (induction us arbitrary: acc)
  case Nil
  then show ?case by simp
next
  case (Cons u us)
  have "\<forall>c \<in> set (addCanonical acc u). videoId c \<noteq> [] \<and> isValidVideoId (videoId c)"
    using Cons.prems by (rule addCanonical_valid)
  then show ?case using Cons.IH by simp
qed

text \<open>
  C10. Every element returned by \<^verbatim>\<open>extractAndCanonicalize\<close> has a non-empty video id
  of eleven characters from \<^verbatim>\<open>[A-Za-z0-9_-]\<close>; a canonicalization with an empty video
  id, which is what a playlist-only URL gives, never occurs in the result.
\<close>

theorem extractAndCanonicalize_valid_ids:
  "(\<forall>c \<in> set (extractAndCanonicalize text). videoId c \<noteq> [] \<and> isValidVideoId (videoId c))
   \<and> (\<forall>u c. canonicalizeUrl u = Some c \<longrightarrow> videoId c = []
         \<longrightarrow> c \<notin> set (extractAndCanonicalize text))"
proof -
  have "\<forall>c \<in> set (extractAndCanonicalize text). videoId c \<noteq> [] \<and> isValidVideoId (videoId c)"
    unfolding extractAndCanonicalize_def by (rule foldl_addCanonical_valid) simp
  then show ?thesis by blast
qed




theorem canonicalizeUrl_idempotent_witness:
  "canonicalizeUrl ''youtube.com/watch?v=dQw4w9WgXcQ&list=PL x%26y&t=1'' =
     Some \<lparr>canonicalUrl = ''https://www.youtube.com/watch?v=dQw4w9WgXcQ&list=PL+x%26y'',
           videoId = ''dQw4w9WgXcQ'', playlistId = Some ''PL x&y'', type = playlist\<rparr>
   \<and> isValidVideoId ''dQw4w9WgXcQ''
   \<and> canonicalizeUrl ''https://www.youtube.com/watch?v=dQw4w9WgXcQ&list=PL+x%26y'' =
     Some \<lparr>canonicalUrl = ''https://www.youtube.com/watch?v=dQw4w9WgXcQ&list=PL+x%26y'',
           videoId = ''dQw4w9WgXcQ'', playlistId = Some ''PL x&y'', type = playlist\<rparr>"
proof -
  let ?c = "\<lparr>canonicalUrl = ''https://www.youtube.com/watch?v=dQw4w9WgXcQ&list=PL+x%26y'',
           videoId = ''dQw4w9WgXcQ'', playlistId = Some ''PL x&y'', type = playlist\<rparr>"
  have a: "canonicalizeUrl ''youtube.com/watch?v=dQw4w9WgXcQ&list=PL x%26y&t=1'' = Some ?c"
    by code_simp
  have b: "isValidVideoId (videoId ?c)" by code_simp
  have "canonicalizeUrl (canonicalUrl ?c) = Some ?c"
    using a b by (rule canonicalizeUrl_idempotent)
  with a b show ?thesis by simp
qed

theorem canonicalizeUrl_keeps_v_and_list_witness:
  "parseURL (normalizeUrl ''youtube.com/watch?t=1&v=dQw4w9WgXcQ&list=PLx&utm_source=y'') =
     Some \<lparr>hostname = ''youtube.com'', pathname = ''/watch'',
           searchParams = [(''t'', ''1''), (''v'', ''dQw4w9WgXcQ''), (''list'', ''PLx''),
                           (''utm_source'', ''y'')]\<rparr>
   \<and> isValidVideoId ''dQw4w9WgXcQ''
   \<and> (\<exists>c. canonicalizeUrl ''youtube.com/watch?t=1&v=dQw4w9WgXcQ&list=PLx&utm_source=y'' = Some c
          \<and> canonicalUrl c = ''https://www.youtube.com/watch?v=dQw4w9WgXcQ&list=PLx''
          \<and> parseURL (canonicalUrl c) =
               Some \<lparr>hostname = ''www.youtube.com'', pathname = ''/watch'',
                     searchParams = [(''v'', ''dQw4w9WgXcQ''), (''list'', ''PLx'')]\<rparr>)"
proof -
  let ?u = "''youtube.com/watch?t=1&v=dQw4w9WgXcQ&list=PLx&utm_source=y''"
  let ?o = "\<lparr>hostname = ''youtube.com'', pathname = ''/watch'',
           searchParams = [(''t'', ''1''), (''v'', ''dQw4w9WgXcQ''), (''list'', ''PLx''),
                           (''utm_source'', ''y'')]\<rparr>"
  have p: "parseURL (normalizeUrl ?u) = Some ?o" by code_simp
  have h: "hostname ?o = ''youtube.com'' \<or> hostname ?o = ''www.youtube.com''" by simp
  have w: "pathname ?o = ''/watch''" by simp
  have g: "get (searchParams ?o) ''v'' = Some ''dQw4w9WgXcQ''" by code_simp
  have v: "isValidVideoId ''dQw4w9WgXcQ''" by code_simp
  have l: "truthy (get (searchParams ?o) ''list'') = Some ''PLx''" by code_simp
  have e: "urlencode ''PLx'' = ''PLx''" by code_simp
  from canonicalizeUrl_keeps_v_and_list[of ?u ?o "''dQw4w9WgXcQ''"] p h w g v
  obtain c where c: "canonicalizeUrl ?u = Some c" "playlistId c = truthy (get (searchParams ?o) ''list'')"
    "canonicalUrl c = ''https://www.youtube.com/watch?v='' @ ''dQw4w9WgXcQ'' @
                  (case playlistId c of Some p \<Rightarrow> ''&list='' @ urlencode p | None \<Rightarrow> [])"
    "parseURL (canonicalUrl c) =
                  Some \<lparr>hostname = ''www.youtube.com'', pathname = ''/watch'',
                        searchParams =
                          (''v'', ''dQw4w9WgXcQ'') # (case playlistId c of Some p \<Rightarrow> [(''list'', p)] | None \<Rightarrow> [])\<rparr>"
    by blast
  have "canonicalUrl c = ''https://www.youtube.com/watch?v=dQw4w9WgXcQ&list=PLx''"
    using c(2,3) l e by simp
  moreover have "parseURL (canonicalUrl c) =
               Some \<lparr>hostname = ''www.youtube.com'', pathname = ''/watch'',
                     searchParams = [(''v'', ''dQw4w9WgXcQ''), (''list'', ''PLx'')]\<rparr>"
    using c(2,4) l by simp
  ultimately show ?thesis using p v c(1) by blast
qed

theorem extractAndCanonicalize_valid_ids_witness:
  "videoResult ''dQw4w9WgXcQ''
     \<in> set (extractAndCanonicalize ''youtube.com/playlist?list=PLx youtu.be/dQw4w9WgXcQ'')
   \<and> videoId (videoResult ''dQw4w9WgXcQ'') \<noteq> []
   \<and> isValidVideoId (videoId (videoResult ''dQw4w9WgXcQ''))
   \<and> canonicalizeUrl ''youtube.com/playlist?list=PLx'' =
        Some \<lparr>canonicalUrl = ''https://www.youtube.com/playlist?list=PLx'', videoId = [],
              playlistId = Some ''PLx'', type = playlist\<rparr>
   \<and> \<lparr>canonicalUrl = ''https://www.youtube.com/playlist?list=PLx'', videoId = [],
              playlistId = Some ''PLx'', type = playlist\<rparr>
     \<notin> set (extractAndCanonicalize ''youtube.com/playlist?list=PLx youtu.be/dQw4w9WgXcQ'')"
proof -
  let ?t = "''youtube.com/playlist?list=PLx youtu.be/dQw4w9WgXcQ''"
  let ?p = "\<lparr>canonicalUrl = ''https://www.youtube.com/playlist?list=PLx'', videoId = [],
              playlistId = Some ''PLx'', type = playlist\<rparr>"
  have e: "extractAndCanonicalize ?t = [videoResult ''dQw4w9WgXcQ'']" by code_simp
  then have m: "videoResult ''dQw4w9WgXcQ'' \<in> set (extractAndCanonicalize ?t)" by simp
  have c: "canonicalizeUrl ''youtube.com/playlist?list=PLx'' = Some ?p" by code_simp
  have "videoId ?p = []" by simp
  with extractAndCanonicalize_valid_ids[of ?t] m c show ?thesis by blast
qed



section \<open>The enrichment client: retries, cache and breaker\<close>


lemma fetchAttempts_calls:
  "apiCalls (snd (fetchAttempts up ids attempt lastError w)) \<le> apiCalls w + (maxRetries - attempt)"
proof (induction up ids attempt lastError w rule: fetchAttempts.induct)
  case (1 up ids attempt lastError w)
  show ?case
  proof (cases "attempt < maxRetries")
    case False
    then show ?thesis by (subst fetchAttempts.simps) simp
  next
    case True
    let ?w1 = "w\<lparr>apiCalls := Suc (apiCalls w)\<rparr>"
    show ?thesis
    proof (cases "up (apiCalls w) ids")
      case (Items items)
      with True show ?thesis by (subst fetchAttempts.simps) simp
    next
      case (Failure e)
      consider "isRateLimit e" | "\<not> isRateLimit e" "isQuota e" | "\<not> isRateLimit e" "\<not> isQuota e"
        by blast
      then show ?thesis
      proof cases
        case 1
        from "1.IH"(1)[OF True refl Failure 1] True Failure 1 show ?thesis
          by (subst fetchAttempts.simps) (simp add: sleep_def)
      next
        case 2
        with True Failure show ?thesis by (subst fetchAttempts.simps) simp
      next
        case 3
        from "1.IH"(2)[OF True refl Failure 3] True Failure 3 show ?thesis
          by (subst fetchAttempts.simps) (simp add: sleep_def)
      qed
    qed
  qed
qed

lemma fetchAttempts_error:
  "fst (fetchAttempts up ids attempt lastError w) \<noteq> Inl CircuitOpen"
proof (induction up ids attempt lastError w rule: fetchAttempts.induct)
  case (1 up ids attempt lastError w)
  show ?case
  proof (cases "attempt < maxRetries")
    case False
    then show ?thesis by (subst fetchAttempts.simps) (simp split: option.splits)
  next
    case True
    show ?thesis
    proof (cases "up (apiCalls w) ids")
      case (Items items)
      with True show ?thesis by (subst fetchAttempts.simps) simp
    next
      case (Failure e)
      consider "isRateLimit e" | "\<not> isRateLimit e" "isQuota e" | "\<not> isRateLimit e" "\<not> isQuota e"
        by blast
      then show ?thesis
      proof cases
        case 1
        from "1.IH"(1)[OF True refl Failure 1] True Failure 1 show ?thesis
          by (subst fetchAttempts.simps) simp
      next
        case 2
        with True Failure show ?thesis by (subst fetchAttempts.simps) simp
      next
        case 3
        from "1.IH"(2)[OF True refl Failure 3] True Failure 3 show ?thesis
          by (subst fetchAttempts.simps) simp
      qed
    qed
  qed
qed


lemma handleFailure_inv: "breakerInv cfg c \<Longrightarrow> breakerInv cfg (handleCircuitBreakerFailure cfg now c)"
  by (auto simp: breakerInv_def handleCircuitBreakerFailure_def Let_def)

lemma processBatch_failure:
  assumes "processBatch cfg up batch c w results = (Inl e, c', w')"
  shows "c' = handleCircuitBreakerFailure cfg (clock w') c \<and> e \<noteq> CircuitOpen"
proof -
  obtain r w1 where f: "fetchVideoMetadataBatch up batch w = (r, w1)" by fastforce
  have "r \<noteq> Inl CircuitOpen"
    using fetchAttempts_error[of up batch 0 None w] f by (simp add: fetchVideoMetadataBatch_def)
  with assms f show ?thesis
    by (cases r) (auto simp: processBatch_def Let_def)
qed

lemma processBatch_success:
  assumes "processBatch cfg up batch c w results = (Inr r, c', w')"
  shows "c' = \<lparr>state = Closed, failures = 0, lastFailure = None\<rparr>"
proof -
  obtain x w1 where f: "fetchVideoMetadataBatch up batch w = (x, w1)" by fastforce
  with assms show ?thesis
    by (cases x) (auto simp: processBatch_def Let_def)
qed

lemma processBatch_inv:
  assumes "breakerInv cfg c" "processBatch cfg up batch c w results = (r, c', w')"
  shows "breakerInv cfg c' \<and> r \<noteq> Inl CircuitOpen"
proof (cases r)
  case (Inl e)
  with assms processBatch_failure[of cfg up batch c w results e c' w'] handleFailure_inv
  show ?thesis by auto
next
  case (Inr m)
  with assms processBatch_success[of cfg up batch c w results m c' w']
  show ?thesis by (auto simp: breakerInv_def)
qed

lemma batchLoop_returns:
  assumes "0 < batchSize cfg" "breakerInv cfg c"
  shows "\<exists>r c' w'. batchLoop cfg up ids i c w results = Some (r, c', w')
           \<and> r \<noteq> Inl CircuitOpen \<and> breakerInv cfg c'"
  using assms(2)
proof (induction "length ids - i" arbitrary: i c w results rule: less_induct)
  case less
  show ?case
  proof (cases "i < length ids")
    case False
    then show ?thesis using less.prems by (subst batchLoop.simps) simp
  next
    case True
    obtain r c1 w1 where p: "processBatch cfg up (take (batchSize cfg) (drop i ids)) c w results = (r, c1, w1)"
      using prod_cases3 by blast
    note inv = processBatch_inv[OF less.prems p]
    show ?thesis
    proof (cases r)
      case (Inl e)
      with p inv True show ?thesis by (subst batchLoop.simps) simp
    next
      case (Inr m)
      have "length ids - (i + batchSize cfg) < length ids - i" using True assms(1) by simp
      from less.hyps[OF this, of c1 w1 m] inv
      obtain r' c' w' where "batchLoop cfg up ids (i + batchSize cfg) c1 w1 m = Some (r', c', w')"
        "r' \<noteq> Inl CircuitOpen" "breakerInv cfg c'" by blast
      with p Inr True show ?thesis by (subst batchLoop.simps) simp
    qed
  qed
qed

lemma map_of_mapSet: "map_of (mapSet m k v) = (map_of m)(k \<mapsto> v)"
  by (induction m) auto

lemma probeCache_fold:
  assumes "\<forall>v \<in> set ids. getCachedMetadata w v \<noteq> None"
  shows "\<exists>res. foldl (\<lambda>(results, uncachedIds) v.
              case getCachedMetadata w v of
                Some cached \<Rightarrow> (mapSet results v cached, uncachedIds)
              | None \<Rightarrow> (results, uncachedIds @ [v])) (res0, []) ids = (res, [])
          \<and> (\<forall>v. map_of res v = (if v \<in> set ids then getCachedMetadata w v else map_of res0 v))"
  using assms
proof (induction ids arbitrary: res0)
  case Nil
  then show ?case by simp
next
  case (Cons a ids)
  then obtain md where md: "getCachedMetadata w a = Some md" by auto
  from Cons.IH[of "mapSet res0 a md"] Cons.prems
  obtain res where r: "foldl (\<lambda>(results, uncachedIds) v.
              case getCachedMetadata w v of
                Some cached \<Rightarrow> (mapSet results v cached, uncachedIds)
              | None \<Rightarrow> (results, uncachedIds @ [v])) (mapSet res0 a md, []) ids = (res, [])"
    "\<forall>v. map_of res v = (if v \<in> set ids then getCachedMetadata w v else map_of (mapSet res0 a md) v)"
    by auto
  show ?case
    using r md by (intro exI[of _ res]) (auto simp: map_of_mapSet)
qed

lemma probeCache_hits:
  assumes "\<forall>v \<in> set ids. getCachedMetadata w v \<noteq> None"
  shows "\<exists>res. probeCache w ids = (res, [])
          \<and> (\<forall>v. map_of res v = (if v \<in> set ids then getCachedMetadata w v else None))"
proof -
  from probeCache_fold[OF assms, of "[]"] obtain res where
    "foldl (\<lambda>(results, uncachedIds) v.
              case getCachedMetadata w v of
                Some cached \<Rightarrow> (mapSet results v cached, uncachedIds)
              | None \<Rightarrow> (results, uncachedIds @ [v])) ([], []) ids = (res, [])"
    "\<forall>v. map_of res v = (if v \<in> set ids then getCachedMetadata w v else map_of [] v)"
    by blast
  then show ?thesis by (intro exI[of _ res]) (simp add: probeCache_def)
qed

text \<open>
  C4 (amended). In a call of \<^verbatim>\<open>getVideoMetadata\<close> the circuit check comes before the
  cache probe. When the breaker is open and the reset timeout has not elapsed, a call
  with a non-empty id list fails with \<open>CircuitOpen\<close> and touches nothing, cached or not.
  Otherwise, whenever every requested id is a cache hit, the call returns exactly the
  cached metadata and leaves the world as it was: no upstream call is made.
\<close>

theorem getVideoMetadata_circuit_then_cache:
  "((\<forall>v \<in> set videoIds. getCachedMetadata w v \<noteq> None) \<longrightarrow> \<not> circuitIsOpen cfg c w \<longrightarrow>
      (\<exists>results. getVideoMetadata cfg up videoIds c w =
           Some (Inr results,
                 (if videoIds \<noteq> [] \<and> state c = Open then c\<lparr>state := HalfOpen\<rparr> else c), w)
         \<and> (\<forall>v. map_of results v = (if v \<in> set videoIds then getCachedMetadata w v else None))))
   \<and> (videoIds \<noteq> [] \<longrightarrow> circuitIsOpen cfg c w \<longrightarrow>
        getVideoMetadata cfg up videoIds c w = Some (Inl CircuitOpen, c, w))"
proof (intro conjI impI)
  assume h: "\<forall>v \<in> set videoIds. getCachedMetadata w v \<noteq> None" and o: "\<not> circuitIsOpen cfg c w"
  from probeCache_hits[OF h] obtain res where
    r: "probeCache w videoIds = (res, [])"
       "\<forall>v. map_of res v = (if v \<in> set videoIds then getCachedMetadata w v else None)"
    by blast
  show "\<exists>results. getVideoMetadata cfg up videoIds c w =
           Some (Inr results,
                 (if videoIds \<noteq> [] \<and> state c = Open then c\<lparr>state := HalfOpen\<rparr> else c), w)
         \<and> (\<forall>v. map_of results v = (if v \<in> set videoIds then getCachedMetadata w v else None))"
  proof (cases "videoIds = []")
    case True
    then show ?thesis by (simp add: getVideoMetadata_def)
  next
    case False
    with o r show ?thesis
      by (intro exI[of _ res]) (simp add: getVideoMetadata_def)
  qed
next
  assume "videoIds \<noteq> []" "circuitIsOpen cfg c w"
  then show "getVideoMetadata cfg up videoIds c w = Some (Inl CircuitOpen, c, w)"
    by (simp add: getVideoMetadata_def)
qed


text \<open>
  C9 (amended). A batch fetch makes at most three upstream calls. A failure that is not
  a 429 and whose message contains \<^verbatim>\<open>quota\<close> or whose status is 403 surfaces
  \<open>QuotaExceeded\<close> at once, without sleeping or retrying; any other failure that is not
  a 429 sleeps \<open>2 ^ attempt * 1000\<close> ms and goes on to the next attempt; once the
  attempts are used up the last error is surfaced.
\<close>

theorem fetchVideoMetadataBatch_retries:
  "apiCalls (snd (fetchVideoMetadataBatch up ids w)) \<le> apiCalls w + 3
   \<and> (attempt < maxRetries \<longrightarrow> up (apiCalls w) ids = Failure e \<longrightarrow> \<not> isRateLimit e \<longrightarrow>
        (if isQuota e
         then fetchAttempts up ids attempt lastError w
                = (Inl QuotaExceeded, w\<lparr>apiCalls := Suc (apiCalls w)\<rparr>)
         else fetchAttempts up ids attempt lastError w
                = fetchAttempts up ids (Suc attempt) (Some e)
                    (sleep (int (2 ^ attempt) * 1000) (w\<lparr>apiCalls := Suc (apiCalls w)\<rparr>))))
   \<and> fetchAttempts up ids maxRetries (Some e') w = (Inl (Upstream e'), w)"
proof (intro conjI impI)
  show "apiCalls (snd (fetchVideoMetadataBatch up ids w)) \<le> apiCalls w + 3"
    using fetchAttempts_calls[of up ids 0 None w]
    by (simp add: fetchVideoMetadataBatch_def maxRetries_def)
next
  assume "attempt < maxRetries" "up (apiCalls w) ids = Failure e" "\<not> isRateLimit e"
  then show "if isQuota e
         then fetchAttempts up ids attempt lastError w
                = (Inl QuotaExceeded, w\<lparr>apiCalls := Suc (apiCalls w)\<rparr>)
         else fetchAttempts up ids attempt lastError w
                = fetchAttempts up ids (Suc attempt) (Some e)
                    (sleep (int (2 ^ attempt) * 1000) (w\<lparr>apiCalls := Suc (apiCalls w)\<rparr>))"
    by (subst fetchAttempts.simps, subst (2) fetchAttempts.simps) simp
next
  show "fetchAttempts up ids maxRetries (Some e') w = (Inl (Upstream e'), w)"
    by (subst fetchAttempts.simps) simp
qed











theorem getVideoMetadata_cache_first_counterexample:
  "getCachedMetadata exCachedWorld exId = Some exMetadata
   \<and> getVideoMetadata defaultConfig exUp [exId] exOpenBreaker exCachedWorld
       = Some (Inl CircuitOpen, exOpenBreaker, exCachedWorld)"
  by code_simp

theorem getVideoMetadata_circuit_then_cache_witness:
  "getCachedMetadata exCachedWorld exId \<noteq> None
   \<and> \<not> circuitIsOpen defaultConfig initialBreaker exCachedWorld
   \<and> (\<exists>results. getVideoMetadata defaultConfig exDown [exId] initialBreaker exCachedWorld
          = Some (Inr results, initialBreaker, exCachedWorld)
        \<and> map_of results exId = Some exMetadata)
   \<and> circuitIsOpen defaultConfig exOpenBreaker exCachedWorld
   \<and> getVideoMetadata defaultConfig exDown [exId] exOpenBreaker exCachedWorld
       = Some (Inl CircuitOpen, exOpenBreaker, exCachedWorld)"
proof -
  have h: "\<forall>v \<in> set [exId]. getCachedMetadata exCachedWorld v \<noteq> None" by code_simp
  have g: "getCachedMetadata exCachedWorld exId = Some exMetadata" by code_simp
  have n: "\<not> circuitIsOpen defaultConfig initialBreaker exCachedWorld" by code_simp
  have o: "circuitIsOpen defaultConfig exOpenBreaker exCachedWorld" by code_simp
  have s: "state initialBreaker \<noteq> Open" by code_simp
  note t = getVideoMetadata_circuit_then_cache[of "[exId]" exCachedWorld defaultConfig _ exDown]
  from t[of initialBreaker] h n s g
  have "\<exists>results. getVideoMetadata defaultConfig exDown [exId] initialBreaker exCachedWorld
          = Some (Inr results, initialBreaker, exCachedWorld)
        \<and> map_of results exId = Some exMetadata"
    by auto
  moreover from t[of exOpenBreaker] o
  have "getVideoMetadata defaultConfig exDown [exId] exOpenBreaker exCachedWorld
       = Some (Inl CircuitOpen, exOpenBreaker, exCachedWorld)"
    by simp
  ultimately show ?thesis using h n o by simp
qed

theorem fetchVideoMetadataBatch_retries_counterexample:
  "errStatus exForbidden = Some 403
   \<and> errMessage exForbidden = Some ''Forbidden''
   \<and> \<not> includes_str ''Forbidden'' ''quota''
   \<and> \<not> isRateLimit exForbidden
   \<and> fetchVideoMetadataBatch exDenied [exId] exWorld
       = (Inl QuotaExceeded, exWorld\<lparr>apiCalls := 1\<rparr>)
   \<and> sleeps (exWorld\<lparr>apiCalls := 1\<rparr>) = []"
  by code_simp

theorem fetchVideoMetadataBatch_retries_witness:
  "(0::nat) < maxRetries
   \<and> exDown (apiCalls exWorld) [exId] = Failure exServerError
   \<and> \<not> isRateLimit exServerError \<and> \<not> isQuota exServerError
   \<and> fetchAttempts exDown [exId] 0 None exWorld
       = fetchAttempts exDown [exId] 1 (Some exServerError)
           (sleep 1000 (exWorld\<lparr>apiCalls := 1\<rparr>))
   \<and> exDenied (apiCalls exWorld) [exId] = Failure exForbidden
   \<and> \<not> isRateLimit exForbidden \<and> isQuota exForbidden
   \<and> fetchAttempts exDenied [exId] 0 None exWorld = (Inl QuotaExceeded, exWorld\<lparr>apiCalls := 1\<rparr>)
   \<and> fetchVideoMetadataBatch exDown [exId] exWorld
       = (Inl (Upstream exServerError),
          \<lparr>clock = 7000, apiCalls = 3, sleeps = [1000, 2000, 4000], cache = []\<rparr>)"
proof -
  have m: "(0::nat) < maxRetries" by code_simp
  have a: "exDown (apiCalls exWorld) [exId] = Failure exServerError" by code_simp
  have b: "\<not> isRateLimit exServerError" "\<not> isQuota exServerError" by code_simp+
  have c: "exDenied (apiCalls exWorld) [exId] = Failure exForbidden" by code_simp
  have d: "\<not> isRateLimit exForbidden" "isQuota exForbidden" by code_simp+
  have z: "apiCalls exWorld = 0" by code_simp
  from fetchVideoMetadataBatch_retries[of exDown "[exId]" exWorld 0 exServerError None] m a b
  have 1: "fetchAttempts exDown [exId] 0 None exWorld
       = fetchAttempts exDown [exId] 1 (Some exServerError)
           (sleep 1000 (exWorld\<lparr>apiCalls := 1\<rparr>))"
    by (simp add: z)
  from fetchVideoMetadataBatch_retries[of exDenied "[exId]" exWorld 0 exForbidden None] m c d
  have 2: "fetchAttempts exDenied [exId] 0 None exWorld = (Inl QuotaExceeded, exWorld\<lparr>apiCalls := 1\<rparr>)"
    by (simp add: z)
  have 3: "fetchVideoMetadataBatch exDown [exId] exWorld
       = (Inl (Upstream exServerError),
          \<lparr>clock = 7000, apiCalls = 3, sleeps = [1000, 2000, 4000], cache = []\<rparr>)"
    by code_simp
  show ?thesis using m a b c d 1 2 3 by blast
qed





section \<open>The email processor: links, jobs and idempotency\<close>

lemma varchar_fits: "charLength s \<le> n \<Longrightarrow> varchar n s = Some s"
  by (simp add: varchar_def)

lemma emailValues_key:
  "emailValues job i b k = Some row \<Longrightarrow>
     em_user_id row = userId job
     \<and> varchar 255 (messageId job) = Some (gmail_message_id row)
     \<and> varchar 255 (senderEmail (metadata job)) = Some (sender_email row)"
  by (auto simp: emailValues_def split: option.splits)

lemma insertEmail_result:
  assumes "insertEmail job s = Inr (eid, s1)"
  shows "\<exists>row. eid = nextId s
     \<and> s1 = s\<lparr>emails := emails s @ [row], nextId := Suc (nextId s)\<rparr>
     \<and> em_user_id row = userId job
     \<and> varchar 255 (messageId job) = Some (gmail_message_id row)
     \<and> varchar 255 (senderEmail (metadata job)) = Some (sender_email row)"
proof -
  from assms obtain row where
    r: "emailValues job (nextId s) (''SENT'' \<notin> set (labels (metadata job)))
          (int (length (labels (metadata job)))) = Some row"
       "eid = nextId s" "s1 = s\<lparr>emails := emails s @ [row], nextId := Suc (nextId s)\<rparr>"
    by (auto simp: insertEmail_def split: option.splits if_splits)
  from emailValues_key[OF r(1)] r(2,3) show ?thesis by blast
qed

lemma storeEmail_result:
  assumes "storeEmail job s = Inr s1"
  shows "youtube_links s1 = youtube_links s \<and> videoEnrichQueue s1 = videoEnrichQueue s
     \<and> sender_stats s1 = sender_stats s
     \<and> (\<exists>row. em_user_id row = userId job
           \<and> varchar 255 (messageId job) = Some (gmail_message_id row)
           \<and> varchar 255 (senderEmail (metadata job)) = Some (sender_email row)
           \<and> (if emailExists s (userId job) (gmail_message_id row) then s1 = s
               else emails s1 = emails s @ [row]))"
proof -
  from assms obtain row where
    r: "emailValues job (nextId s) False 0 = Some row"
       "s1 = (if emailExists s (em_user_id row) (gmail_message_id row) then s
              else s\<lparr>emails := emails s @ [row], nextId := Suc (nextId s)\<rparr>)"
    by (auto simp: storeEmail_def split: option.splits if_splits)
  from emailValues_key[OF r(1)] have k: "em_user_id row = userId job"
    "varchar 255 (messageId job) = Some (gmail_message_id row)"
    "varchar 255 (senderEmail (metadata job)) = Some (sender_email row)"
    by simp_all
  from r(2) k(1) have "youtube_links s1 = youtube_links s" "videoEnrichQueue s1 = videoEnrichQueue s"
    "sender_stats s1 = sender_stats s"
    "if emailExists s (userId job) (gmail_message_id row) then s1 = s
     else emails s1 = emails s @ [row]"
    by simp_all
  with k show ?thesis by blast
qed

lemma insertLink_result:
  assumes "insertLink u eid now ls s url = Inr (ls', s')"
  shows "\<exists>new. s' = s\<lparr>youtube_links := youtube_links s @ new, nextId := nextId s + length new\<rparr>
     \<and> ls' = ls @ map ln_id new
     \<and> map ln_id new = [nextId s ..< nextId s + length new]"
proof -
  obtain v where v: "varchar 20 (videoId url) = Some v"
    using assms by (cases "varchar 20 (videoId url)") (simp_all add: insertLink_def Let_def)
  obtain p where p: "varcharNull 50 (truthy (playlistId url)) = Some p"
    using assms v
    by (cases "varcharNull 50 (truthy (playlistId url))") (simp_all add: insertLink_def Let_def)
  let ?row = "\<lparr>ln_id = nextId s, ln_user_id = u, ln_email_id = eid,
                canonical_url = canonicalUrl url, ln_video_id = v,
                playlist_id = p, extracted_at = now,
                is_duplicate = (\<exists>l \<in> set (youtube_links s).
                                  ln_user_id l = u \<and> ln_video_id l = videoId url)\<rparr>"
  show ?thesis
  proof (cases "\<exists>l \<in> set (youtube_links s).
                  ln_user_id l = u \<and> ln_email_id l = eid \<and> ln_video_id l = v")
    case True
    have "insertLink u eid now ls s url = Inr (ls, s)"
      unfolding insertLink_def Let_def v p using True by simp
    with assms have "ls' = ls" "s' = s" by simp_all
    then show ?thesis by (intro exI[of _ "[]"]) simp
  next
    case False
    have "insertLink u eid now ls s url
            = Inr (ls @ [nextId s],
                   s\<lparr>youtube_links := youtube_links s @ [?row], nextId := Suc (nextId s)\<rparr>)"
      unfolding insertLink_def Let_def v p using False by simp
    with assms have "ls' = ls @ [nextId s]"
      "s' = s\<lparr>youtube_links := youtube_links s @ [?row], nextId := Suc (nextId s)\<rparr>"
      by simp_all
    then show ?thesis by (intro exI[of _ "[?row]"]) simp
  qed
qed

lemma insertLinks_result:
  "insertLinks u eid now urls ls s = (r, s') \<Longrightarrow>
     \<exists>new. s' = s\<lparr>youtube_links := youtube_links s @ new, nextId := nextId s + length new\<rparr>
        \<and> map ln_id new = [nextId s ..< nextId s + length new]
        \<and> (\<forall>ls'. r = Inr ls' \<longrightarrow> ls' = ls @ map ln_id new)"
proof (induction urls arbitrary: ls s)
  case Nil
  then show ?case by (intro exI[of _ "[]"]) auto
next
  case (Cons url urls)
  show ?case
  proof (cases "insertLink u eid now ls s url")
    case (Inl e)
    with Cons.prems show ?thesis by (intro exI[of _ "[]"]) auto
  next
    case (Inr p)
    obtain ls1 s1 where p: "p = (ls1, s1)" by (cases p)
    from insertLink_result[of u eid now ls s url ls1 s1] Inr p obtain n1 where
      n1: "s1 = s\<lparr>youtube_links := youtube_links s @ n1, nextId := nextId s + length n1\<rparr>"
          "ls1 = ls @ map ln_id n1" "map ln_id n1 = [nextId s ..< nextId s + length n1]"
      by auto
    have "insertLinks u eid now urls ls1 s1 = (r, s')"
      using Cons.prems Inr p by simp
    from Cons.IH[OF this] obtain n2 where
      n2: "s' = s1\<lparr>youtube_links := youtube_links s1 @ n2, nextId := nextId s1 + length n2\<rparr>"
          "map ln_id n2 = [nextId s1 ..< nextId s1 + length n2]"
          "\<forall>ls'. r = Inr ls' \<longrightarrow> ls' = ls1 @ map ln_id n2"
      by blast
    have "[nextId s ..< nextId s + length n1] @ [nextId s + length n1 ..< nextId s + length n1 + length n2]
            = [nextId s ..< nextId s + length n1 + length n2]"
      using upt_add_eq_append[of "nextId s" "nextId s + length n1" "length n2"] by simp
    then have ids: "map ln_id (n1 @ n2) = [nextId s ..< nextId s + length (n1 @ n2)]"
      using n1(1,3) n2(2) by (simp add: add.assoc)
    have st: "s' = s\<lparr>youtube_links := youtube_links s @ (n1 @ n2),
                     nextId := nextId s + length (n1 @ n2)\<rparr>"
      using n1(1) n2(1) by (simp add: add.assoc)
    have all: "\<forall>ls'. r = Inr ls' \<longrightarrow> ls' = ls @ map ln_id (n1 @ n2)"
      using n1(2) n2(3) by simp
    show ?thesis
      by (rule exI[of _ "n1 @ n2"]) (intro conjI st ids all)
  qed
qed

lemma foldl_enqueueEnrich:
  assumes "find (\<lambda>x. videoId x \<noteq> []) urls = Some url"
  shows "foldl (enqueueEnrich u urls) s lids
           = s\<lparr>videoEnrichQueue := videoEnrichQueue s @
                 map (\<lambda>lid. \<lparr>jobUserId = u, jobLinkId = lid, jobVideoId = videoId url\<rparr>) lids\<rparr>"
  using assms by (induction lids arbitrary: s) (simp_all add: enqueueEnrich_def)

lemma urls_have_id:
  assumes "messageUrls ev message \<noteq> []"
  shows "\<exists>url. find (\<lambda>x. videoId x \<noteq> []) (messageUrls ev message) = Some url"
proof -
  have "\<forall>c \<in> set (messageUrls ev message). videoId c \<noteq> [] \<and> isValidVideoId (videoId c)"
    unfolding messageUrls_def extractAndCanonicalize_def
    by (rule foldl_addCanonical_valid) simp
  with assms show ?thesis by (cases "messageUrls ev message") auto
qed

lemma find_isSender_map:
  "find (isSender u e) (map (\<lambda>r. if isSender u e r then f r else r) rs)
     = map_option f (find (isSender u e) rs)"
  if "\<And>r. isSender u e r \<Longrightarrow> isSender u e (f r)"
  using that by (induction rs) auto

lemma find_snoc:
  "find P (xs @ [x]) = (case find P xs of Some y \<Rightarrow> Some y | None \<Rightarrow> if P x then Some x else None)"
  by (induction xs) auto

lemma upsertSenderStats_result:
  assumes "upsertSenderStats u sender received now s = Inr s'"
  shows "\<exists>e. varchar 255 sender = Some e \<and> senderCount s' u e = senderCount s u e + 1
     \<and> emails s' = emails s \<and> youtube_links s' = youtube_links s
     \<and> videoEnrichQueue s' = videoEnrichQueue s \<and> video_metadata s' = video_metadata s"
proof -
  from assms obtain e where e: "varchar 255 sender = Some e"
    by (auto simp: upsertSenderStats_def split: option.splits)
  have "senderCount s' u e = senderCount s u e + 1
     \<and> emails s' = emails s \<and> youtube_links s' = youtube_links s
     \<and> videoEnrichQueue s' = videoEnrichQueue s \<and> video_metadata s' = video_metadata s"
  proof (cases "\<exists>r \<in> set (sender_stats s). isSender u e r")
    case True
    then obtain r where r: "find (isSender u e) (sender_stats s) = Some r"
      by (cases "find (isSender u e) (sender_stats s)") (auto simp: find_None_iff)
    let ?f = "\<lambda>r. r\<lparr>email_count := email_count r + 1,
                     last_email_at := Some (greatest (last_email_at r) received),
                     updated_at := now\<rparr>"
    have s': "s' = s\<lparr>sender_stats := map (\<lambda>r. if isSender u e r then ?f r else r) (sender_stats s)\<rparr>"
      using assms e True by (auto simp: upsertSenderStats_def split: if_splits)
    have "find (isSender u e) (map (\<lambda>r. if isSender u e r then ?f r else r) (sender_stats s))
        = map_option ?f (find (isSender u e) (sender_stats s))"
      by (rule find_isSender_map) (simp add: isSender_def)
    with r s' show ?thesis
      by (simp add: senderCount_def senderStatsOf_def)
  next
    case False
    let ?row = "\<lparr>ss_user_id = u, ss_sender_email = e, email_count = 1,
                 last_email_at = Some received, is_in_contacts = False, updated_at = now\<rparr>"
    have n: "find (isSender u e) (sender_stats s) = None" using False by (simp add: find_None_iff)
    have "isSender u e ?row" by (simp add: isSender_def)
    then have f: "find (isSender u e) (sender_stats s @ [?row]) = Some ?row"
      using n by (simp add: find_snoc)
    have s': "s' = s\<lparr>sender_stats := sender_stats s @ [?row]\<rparr>"
      using assms e False by (auto simp: upsertSenderStats_def)
    show ?thesis using n f by (simp add: s' senderCount_def senderStatsOf_def)
  qed
  with e show ?thesis by blast
qed

lemma storeEmailAndLinks_steps:
  assumes "storeEmailAndLinks job urls now s = (r, s')"
  shows "(\<exists>e. r = Inl e \<and> videoEnrichQueue s' = videoEnrichQueue s)
     \<or> (\<exists>eid s1 linkIds s2 s3.
           r = Inr () \<and> insertEmail job s = Inr (eid, s1)
           \<and> insertLinks (userId job) eid now urls [] s1 = (Inr linkIds, s2)
           \<and> upsertSenderStats (userId job) (senderEmail (metadata job))
                (receivedAt (metadata job)) now s2 = Inr s3
           \<and> s' = foldl (enqueueEnrich (userId job) urls) s3 linkIds)"
proof (cases "insertEmail job s")
  case (Inl e)
  with assms show ?thesis by (auto simp: storeEmailAndLinks_def)
next
  case (Inr p)
  obtain eid s1 where p: "p = (eid, s1)" by (cases p)
  from insertEmail_result[of job s eid s1] Inr p obtain row where
    s1: "s1 = s\<lparr>emails := emails s @ [row], nextId := Suc (nextId s)\<rparr>" by auto
  obtain rl s2 where l: "insertLinks (userId job) eid now urls [] s1 = (rl, s2)" by fastforce
  from insertLinks_result[OF l] obtain new where
    s2: "s2 = s1\<lparr>youtube_links := youtube_links s1 @ new, nextId := nextId s1 + length new\<rparr>"
    by blast
  have q2: "videoEnrichQueue s2 = videoEnrichQueue s" "youtube_links s2 = youtube_links s @ new"
    by (simp_all add: s1 s2)
  show ?thesis
  proof (cases rl)
    case (Inl e)
    with assms Inr p l have "r = Inl e" "s' = s2" by (auto simp: storeEmailAndLinks_def)
    with q2 show ?thesis by simp
  next
    case il: (Inr linkIds)
    show ?thesis
    proof (cases "upsertSenderStats (userId job) (senderEmail (metadata job))
                (receivedAt (metadata job)) now s2")
      case (Inl e)
      with assms Inr p l il have "r = Inl e" "s' = s2" by (auto simp: storeEmailAndLinks_def)
      with q2 show ?thesis by simp
    next
      case iu: (Inr s3)
      with assms Inr p l il have "r = Inr ()"
        "s' = foldl (enqueueEnrich (userId job) urls) s3 linkIds"
        by (auto simp: storeEmailAndLinks_def)
      with Inr p l il iu show ?thesis by blast
    qed
  qed
qed

lemma storeEmailAndLinks_failure:
  "storeEmailAndLinks job urls now s = (Inl e, s') \<Longrightarrow> videoEnrichQueue s' = videoEnrichQueue s"
  using storeEmailAndLinks_steps[of job urls now s "Inl e" s'] by auto

lemma storeEmailAndLinks_success:
  assumes "storeEmailAndLinks job urls now s = (Inr (), s')"
    "find (\<lambda>x. videoId x \<noteq> []) urls = Some url"
  shows "\<exists>row newLinks.
     emails s' = emails s @ [row]
     \<and> em_user_id row = userId job
     \<and> varchar 255 (messageId job) = Some (gmail_message_id row)
     \<and> varchar 255 (senderEmail (metadata job)) = Some (sender_email row)
     \<and> youtube_links s' = youtube_links s @ newLinks
     \<and> map ln_id newLinks = [Suc (nextId s) ..< Suc (nextId s) + length newLinks]
     \<and> videoEnrichQueue s' = videoEnrichQueue s @
          map (\<lambda>lid. \<lparr>jobUserId = userId job, jobLinkId = lid, jobVideoId = videoId url\<rparr>)
            (map ln_id newLinks)
     \<and> senderCount s' (userId job) (sender_email row)
          = senderCount s (userId job) (sender_email row) + 1
     \<and> video_metadata s' = video_metadata s"
proof -
  from storeEmailAndLinks_steps[OF assms(1)] obtain eid s1 linkIds s2 s3 where
    i: "insertEmail job s = Inr (eid, s1)"
    and l: "insertLinks (userId job) eid now urls [] s1 = (Inr linkIds, s2)"
    and u: "upsertSenderStats (userId job) (senderEmail (metadata job))
                (receivedAt (metadata job)) now s2 = Inr s3"
    and q: "s' = foldl (enqueueEnrich (userId job) urls) s3 linkIds"
    by auto
  from insertEmail_result[OF i] obtain row where
    row: "s1 = s\<lparr>emails := emails s @ [row], nextId := Suc (nextId s)\<rparr>"
      "em_user_id row = userId job"
      "varchar 255 (messageId job) = Some (gmail_message_id row)"
      "varchar 255 (senderEmail (metadata job)) = Some (sender_email row)"
    by blast
  from insertLinks_result[OF l] obtain new where
    new: "s2 = s1\<lparr>youtube_links := youtube_links s1 @ new, nextId := nextId s1 + length new\<rparr>"
      "map ln_id new = [nextId s1 ..< nextId s1 + length new]"
      "linkIds = map ln_id new"
    by auto
  have f2: "emails s2 = emails s @ [row]" "youtube_links s2 = youtube_links s @ new"
    "videoEnrichQueue s2 = videoEnrichQueue s" "video_metadata s2 = video_metadata s"
    "sender_stats s2 = sender_stats s"
    by (simp_all add: row(1) new(1))
  have ids: "map ln_id new = [Suc (nextId s) ..< Suc (nextId s) + length new]"
    using new(2) by (simp add: row(1))
  from upsertSenderStats_result[OF u] row(4) have
    f3: "senderCount s3 (userId job) (sender_email row)
           = senderCount s2 (userId job) (sender_email row) + 1"
      "emails s3 = emails s2" "youtube_links s3 = youtube_links s2"
      "videoEnrichQueue s3 = videoEnrichQueue s2" "video_metadata s3 = video_metadata s2"
    by auto
  have c2: "senderCount s2 (userId job) (sender_email row)
           = senderCount s (userId job) (sender_email row)"
    using f2(5) by (simp add: senderCount_def senderStatsOf_def)
  have s': "s' = s3\<lparr>videoEnrichQueue := videoEnrichQueue s3 @
        map (\<lambda>lid. \<lparr>jobUserId = userId job, jobLinkId = lid, jobVideoId = videoId url\<rparr>)
          (map ln_id new)\<rparr>"
    unfolding q new(3) using assms(2) by (rule foldl_enqueueEnrich)
  have c4: "senderCount s' (userId job) (sender_email row)
          = senderCount s (userId job) (sender_email row) + 1"
    using f3(1) c2 by (simp add: s' senderCount_def senderStatsOf_def)
  have f4: "emails s' = emails s @ [row]" "youtube_links s' = youtube_links s @ new"
    "videoEnrichQueue s' = videoEnrichQueue s @
        map (\<lambda>lid. \<lparr>jobUserId = userId job, jobLinkId = lid, jobVideoId = videoId url\<rparr>)
          (map ln_id new)"
    "video_metadata s' = video_metadata s"
    using f2 f3 by (simp_all add: s')
  show ?thesis
    using f4 row(2,3,4) ids c4 by blast
qed

lemma emailExists_snoc:
  "emails s' = emails s @ [row] \<Longrightarrow> em_user_id row = u \<Longrightarrow> gmail_message_id row = m \<Longrightarrow>
     emailExists s' u m"
  by (auto simp: emailExists_def)

text \<open>What a run that passes the check for an existing row does, by its outcome.\<close>

lemma processEmailJob_cases:
  assumes "\<not> emailExists s (userId job) (messageId job)"
    "processEmailJob ev now job s = (r, s')"
  shows "(\<exists>e. r = Inl e \<and> s' = s)
     \<or> (\<exists>message. fetchMessage ev job s = Inr message \<and> messageUrls ev message = []
           \<and> r = Inr () \<and> storeEmail job s = Inr s')
     \<or> (\<exists>message. fetchMessage ev job s = Inr message \<and> messageUrls ev message \<noteq> []
           \<and> r = Inr ()
           \<and> storeEmailAndLinks job (messageUrls ev message) now s = (Inr (), s'))"
proof (cases "fetchMessage ev job s")
  case (Inl e)
  with assms show ?thesis by (auto simp: processEmailJob_def)
next
  case (Inr message)
  show ?thesis
  proof (cases "messageUrls ev message = []")
    case True
    with assms Inr show ?thesis
      by (cases "storeEmail job s") (auto simp: processEmailJob_def)
  next
    case False
    obtain r0 s0 where b: "storeEmailAndLinks job (messageUrls ev message) now s = (r0, s0)"
      by fastforce
    show ?thesis
    proof (cases r0)
      case (Inl e)
      with b have "videoEnrichQueue s0 = videoEnrichQueue s"
        using storeEmailAndLinks_failure by blast
      then have "s\<lparr>videoEnrichQueue := videoEnrichQueue s0\<rparr> = s" by simp
      moreover have "transaction (storeEmailAndLinks job (messageUrls ev message) now) s
                       = (Inl e, s\<lparr>videoEnrichQueue := videoEnrichQueue s0\<rparr>)"
        using b Inl by (simp add: transaction_def)
      ultimately have "processEmailJob ev now job s = (Inl e, s)"
        using assms(1) Inr False by (simp add: processEmailJob_def)
      with assms(2) show ?thesis by auto
    next
      case r: (Inr x)
      with b have "transaction (storeEmailAndLinks job (messageUrls ev message) now) s = (Inr (), s0)"
        by (simp add: transaction_def)
      then have "processEmailJob ev now job s = (Inr (), s0)"
        using assms(1) Inr False by (simp add: processEmailJob_def)
      with assms(2) Inr False b r show ?thesis by auto
    qed
  qed
qed

text \<open>
  C1 (amended). Whatever the outcome of a run of the Email Processor, the jobs it adds
  to the enrichment queue are, in order, one per Link row it inserted, each carrying
  the id of its link and the user of the job; the ids of the inserted links are
  pairwise distinct. No condition on VideoMetadata enters: a link whose video already
  has metadata gets its job as well.
\<close>

theorem processEmailJob_one_job_per_link:
  "processEmailJob ev now job s = (r, s') \<Longrightarrow>
     \<exists>newLinks newJobs.
        youtube_links s' = youtube_links s @ newLinks
        \<and> videoEnrichQueue s' = videoEnrichQueue s @ newJobs
        \<and> map jobLinkId newJobs = map ln_id newLinks
        \<and> distinct (map ln_id newLinks)
        \<and> (\<forall>j \<in> set newJobs. jobUserId j = userId job)"
proof -
  assume p: "processEmailJob ev now job s = (r, s')"
  have trivial: ?thesis if "youtube_links s' = youtube_links s" "videoEnrichQueue s' = videoEnrichQueue s"
    using that by (intro exI[of _ "[]"]) simp
  show ?thesis
  proof (cases "emailExists s (userId job) (messageId job)")
    case True
    with p have "s' = s" by (simp add: processEmailJob_def)
    then show ?thesis by (intro trivial) simp_all
  next
    case False
    from processEmailJob_cases[OF False p] consider
      (failed) "s' = s"
      | (plain) "storeEmail job s = Inr s'"
      | (links) message where "messageUrls ev message \<noteq> []"
          "storeEmailAndLinks job (messageUrls ev message) now s = (Inr (), s')"
      by blast
    then show ?thesis
    proof cases
      case failed
      then show ?thesis by (intro trivial) simp_all
    next
      case plain
      from storeEmail_result[OF plain] show ?thesis by (intro trivial) simp_all
    next
      case links
      from urls_have_id[OF links(1)] obtain url where
        f: "find (\<lambda>x. videoId x \<noteq> []) (messageUrls ev message) = Some url" by blast
      from storeEmailAndLinks_success[OF links(2) f] obtain newLinks where
        r: "youtube_links s' = youtube_links s @ newLinks"
           "map ln_id newLinks = [Suc (nextId s) ..< Suc (nextId s) + length newLinks]"
           "videoEnrichQueue s' = videoEnrichQueue s @
              map (\<lambda>lid. \<lparr>jobUserId = userId job, jobLinkId = lid, jobVideoId = videoId url\<rparr>)
                (map ln_id newLinks)"
        by blast
      have "distinct (map ln_id newLinks)" by (simp add: r(2))
      then show ?thesis
        using r(1,3)
        by (intro exI[of _ newLinks]
              exI[of _ "map (\<lambda>lid. \<lparr>jobUserId = userId job, jobLinkId = lid,
                                jobVideoId = videoId url\<rparr>) (map ln_id newLinks)"])
           (simp add: comp_def)
    qed
  qed
qed

text \<open>A first run that succeeds on a message without an Email row adds exactly the
  row that the insert forms from the job.\<close>

lemma processEmailJob_first_run:
  assumes "\<not> emailExists s (userId job) (messageId job)"
    "charLength (messageId job) \<le> 255"
    "processEmailJob ev now job s = (Inr (), s1)"
  shows "\<exists>message row. fetchMessage ev job s = Inr message
     \<and> emails s1 = emails s @ [row]
     \<and> em_user_id row = userId job \<and> gmail_message_id row = messageId job
     \<and> varchar 255 (senderEmail (metadata job)) = Some (sender_email row)
     \<and> (if messageUrls ev message = [] then sender_stats s1 = sender_stats s
         else senderCount s1 (userId job) (sender_email row)
                = senderCount s (userId job) (sender_email row) + 1)"
proof -
  have fit: "varchar 255 (messageId job) = Some (messageId job)"
    using assms(2) by (rule varchar_fits)
  from processEmailJob_cases[OF assms(1,3)] consider
    (plain) message where "fetchMessage ev job s = Inr message" "messageUrls ev message = []"
      "storeEmail job s = Inr s1"
    | (links) message where "fetchMessage ev job s = Inr message" "messageUrls ev message \<noteq> []"
        "storeEmailAndLinks job (messageUrls ev message) now s = (Inr (), s1)"
    by blast
  then show ?thesis
  proof cases
    case plain
    from storeEmail_result[OF plain(3)] obtain row where
      r: "sender_stats s1 = sender_stats s" "em_user_id row = userId job"
         "varchar 255 (messageId job) = Some (gmail_message_id row)"
         "varchar 255 (senderEmail (metadata job)) = Some (sender_email row)"
         "if emailExists s (userId job) (gmail_message_id row) then s1 = s
          else emails s1 = emails s @ [row]"
      by blast
    from r(3) fit have m: "gmail_message_id row = messageId job" by simp
    with r(5) assms(1) have "emails s1 = emails s @ [row]" by simp
    with plain(1,2) r(1,2,4) m show ?thesis by auto
  next
    case links
    from urls_have_id[OF links(2)] obtain url where
      f: "find (\<lambda>x. videoId x \<noteq> []) (messageUrls ev message) = Some url" by blast
    from storeEmailAndLinks_success[OF links(3) f] obtain row where
      r: "emails s1 = emails s @ [row]" "em_user_id row = userId job"
         "varchar 255 (messageId job) = Some (gmail_message_id row)"
         "varchar 255 (senderEmail (metadata job)) = Some (sender_email row)"
         "senderCount s1 (userId job) (sender_email row)
            = senderCount s (userId job) (sender_email row) + 1"
      by blast
    from r(3) fit have m: "gmail_message_id row = messageId job" by simp
    with links(1,2) r(1,2,4,5) show ?thesis by auto
  qed
qed

lemma processEmailJob_success_exists:
  assumes "charLength (messageId job) \<le> 255" "processEmailJob ev now job s = (Inr (), s1)"
  shows "emailExists s1 (userId job) (messageId job)"
proof (cases "emailExists s (userId job) (messageId job)")
  case True
  with assms show ?thesis by (simp add: processEmailJob_def)
next
  case False
  from processEmailJob_first_run[OF False assms] show ?thesis
    by (auto intro: emailExists_snoc)
qed

text \<open>A message id of more than 255 characters whose excess is spaces is stored cut
  to 255 characters; the check of a second run looks for the id as it is, does not
  find the row, and the insert then violates the unique constraint.\<close>

lemma processEmailJob_cut_id_second_run:
  "charLength (messageId exLongIdJob) = 256
   \<and> fst (processEmailJob exLinkEnv 5 exLongIdJob exStore) = Inr ()
   \<and> map gmail_message_id (emails (snd (processEmailJob exLinkEnv 5 exLongIdJob exStore)))
       = [replicate 255 (CHR ''m'')]
   \<and> processEmailJob exLinkEnv 6 exLongIdJob (snd (processEmailJob exLinkEnv 5 exLongIdJob exStore))
       = (Inl IntegrityViolation, snd (processEmailJob exLinkEnv 5 exLongIdJob exStore))"
  by code_simp

text \<open>
  C6 (amended). A run over a store that already holds the Email row of
  \<open>(user, message-id)\<close> succeeds and changes nothing. For a message id that fits the
  255 characters of its column, a second run after a successful first run returns the
  store of the first run; and a successful first run on a store without the Email row
  has fetched the message and added exactly one Email row, with that key, and it has
  raised the sender's \<^verbatim>\<open>email_count\<close> by exactly one when the message yields at least
  one link, while it has left SenderStats untouched when the message yields none.
\<close>

theorem processEmailJob_second_run_noop:
  "(emailExists s (userId job) (messageId job) \<longrightarrow> processEmailJob ev now job s = (Inr (), s))
   \<and> (charLength (messageId job) \<le> 255 \<longrightarrow> processEmailJob ev now job s = (Inr (), s1) \<longrightarrow>
         processEmailJob ev now' job s1 = (Inr (), s1))
   \<and> (charLength (messageId job) \<le> 255 \<longrightarrow> \<not> emailExists s (userId job) (messageId job) \<longrightarrow>
      processEmailJob ev now job s = (Inr (), s1) \<longrightarrow>
        (\<exists>message row. fetchMessage ev job s = Inr message
           \<and> emails s1 = emails s @ [row]
           \<and> em_user_id row = userId job \<and> gmail_message_id row = messageId job
           \<and> varchar 255 (senderEmail (metadata job)) = Some (sender_email row)
           \<and> (if messageUrls ev message = [] then sender_stats s1 = sender_stats s
               else senderCount s1 (userId job) (sender_email row)
                      = senderCount s (userId job) (sender_email row) + 1)))"
proof (intro conjI impI)
  assume "emailExists s (userId job) (messageId job)"
  then show "processEmailJob ev now job s = (Inr (), s)" by (simp add: processEmailJob_def)
next
  assume "charLength (messageId job) \<le> 255" "processEmailJob ev now job s = (Inr (), s1)"
  then have "emailExists s1 (userId job) (messageId job)" by (rule processEmailJob_success_exists)
  then show "processEmailJob ev now' job s1 = (Inr (), s1)" by (simp add: processEmailJob_def)
next
  assume "charLength (messageId job) \<le> 255" "\<not> emailExists s (userId job) (messageId job)"
    "processEmailJob ev now job s = (Inr (), s1)"
  from processEmailJob_first_run[OF this(2,1,3)]
  show "\<exists>message row. fetchMessage ev job s = Inr message
           \<and> emails s1 = emails s @ [row]
           \<and> em_user_id row = userId job \<and> gmail_message_id row = messageId job
           \<and> varchar 255 (senderEmail (metadata job)) = Some (sender_email row)
           \<and> (if messageUrls ev message = [] then sender_stats s1 = sender_stats s
               else senderCount s1 (userId job) (sender_email row)
                      = senderCount s (userId job) (sender_email row) + 1)" .
qed


theorem processEmailJob_metadata_check_counterexample:
  "video_metadata exStore = [exMetadata] \<and> mdVideoId exMetadata = ''dQw4w9WgXcQ''
   \<and> youtube_links exStore = [] \<and> videoEnrichQueue exStore = []
   \<and> videoEnrichQueue (snd (processEmailJob exLinkEnv 5 exJob exStore))
       = [\<lparr>jobUserId = ''u1'', jobLinkId = 1, jobVideoId = ''dQw4w9WgXcQ''\<rparr>]
   \<and> specEnrichJobs exStore ''u1'' (youtube_links (snd (processEmailJob exLinkEnv 5 exJob exStore)))
       = []"
  by code_simp

theorem processEmailJob_one_job_per_link_witness:
  "map ln_id (youtube_links (snd (processEmailJob exTwoLinkEnv 5 exJob exStore))) = [1, 2]
   \<and> map jobLinkId (videoEnrichQueue (snd (processEmailJob exTwoLinkEnv 5 exJob exStore))) = [1, 2]
   \<and> map ln_video_id (youtube_links (snd (processEmailJob exTwoLinkEnv 5 exJob exStore)))
       = [''dQw4w9WgXcQ'', ''abcdefghijk'']
   \<and> map jobVideoId (videoEnrichQueue (snd (processEmailJob exTwoLinkEnv 5 exJob exStore)))
       = [''dQw4w9WgXcQ'', ''dQw4w9WgXcQ'']
   \<and> (\<exists>newLinks newJobs.
        youtube_links (snd (processEmailJob exTwoLinkEnv 5 exJob exStore))
          = youtube_links exStore @ newLinks
        \<and> videoEnrichQueue (snd (processEmailJob exTwoLinkEnv 5 exJob exStore))
          = videoEnrichQueue exStore @ newJobs
        \<and> map jobLinkId newJobs = map ln_id newLinks
        \<and> distinct (map ln_id newLinks)
        \<and> (\<forall>j \<in> set newJobs. jobUserId j = userId exJob))"
proof -
  have p: "processEmailJob exTwoLinkEnv 5 exJob exStore
             = (fst (processEmailJob exTwoLinkEnv 5 exJob exStore),
                snd (processEmailJob exTwoLinkEnv 5 exJob exStore))"
    by simp
  have e: "map ln_id (youtube_links (snd (processEmailJob exTwoLinkEnv 5 exJob exStore))) = [1, 2]"
    "map jobLinkId (videoEnrichQueue (snd (processEmailJob exTwoLinkEnv 5 exJob exStore))) = [1, 2]"
    "map ln_video_id (youtube_links (snd (processEmailJob exTwoLinkEnv 5 exJob exStore)))
       = [''dQw4w9WgXcQ'', ''abcdefghijk'']"
    "map jobVideoId (videoEnrichQueue (snd (processEmailJob exTwoLinkEnv 5 exJob exStore)))
       = [''dQw4w9WgXcQ'', ''dQw4w9WgXcQ'']"
    by code_simp+
  from processEmailJob_one_job_per_link[OF p] e show ?thesis by blast
qed

theorem processEmailJob_sender_count_counterexample:
  "fst (processEmailJob exPlainEnv 5 exJob exStore) = Inr ()
   \<and> processEmailJob exPlainEnv 6 exJob (snd (processEmailJob exPlainEnv 5 exJob exStore))
       = (Inr (), snd (processEmailJob exPlainEnv 5 exJob exStore))
   \<and> senderCount exStore ''u1'' ''ann@example.com'' = 0
   \<and> senderCount (snd (processEmailJob exPlainEnv 5 exJob exStore)) ''u1'' ''ann@example.com'' = 0
   \<and> sender_stats (snd (processEmailJob exPlainEnv 5 exJob exStore)) = []"
  by code_simp

theorem processEmailJob_second_run_noop_witness:
  "charLength (messageId exJob) \<le> 255
   \<and> \<not> emailExists exStore (userId exJob) (messageId exJob)
   \<and> fst (processEmailJob exLinkEnv 5 exJob exStore) = Inr ()
   \<and> fetchMessage exLinkEnv exJob exStore
       = Inr \<lparr>payload = Some (Part (Some ''eW91dHUuYmUvZFF3NHc5V2dYY1E='') [])\<rparr>
   \<and> messageUrls exLinkEnv \<lparr>payload = Some (Part (Some ''eW91dHUuYmUvZFF3NHc5V2dYY1E='') [])\<rparr> \<noteq> []
   \<and> map gmail_message_id (emails (snd (processEmailJob exLinkEnv 5 exJob exStore))) = [''m1'']
   \<and> emailExists (snd (processEmailJob exLinkEnv 5 exJob exStore)) (userId exJob) (messageId exJob)
   \<and> senderCount (snd (processEmailJob exLinkEnv 5 exJob exStore)) ''u1'' ''ann@example.com''
       = senderCount exStore ''u1'' ''ann@example.com'' + 1
   \<and> processEmailJob exLinkEnv 6 exJob (snd (processEmailJob exLinkEnv 5 exJob exStore))
       = (Inr (), snd (processEmailJob exLinkEnv 5 exJob exStore))"
proof -
  let ?m = "\<lparr>payload = Some (Part (Some ''eW91dHUuYmUvZFF3NHc5V2dYY1E='') [])\<rparr>"
  let ?s1 = "snd (processEmailJob exLinkEnv 5 exJob exStore)"
  note t = processEmailJob_second_run_noop[where s=exStore and job=exJob and ev=exLinkEnv
      and now=5 and now'=6 and ?s1.0="?s1"]
  have l: "charLength (messageId exJob) \<le> 255" by code_simp
  have a: "\<not> emailExists exStore (userId exJob) (messageId exJob)" by code_simp
  have r: "fst (processEmailJob exLinkEnv 5 exJob exStore) = Inr ()" by code_simp
  then have p: "processEmailJob exLinkEnv 5 exJob exStore = (Inr (), ?s1)"
    by (metis prod.collapse)
  have b: "fetchMessage exLinkEnv exJob exStore = Inr ?m" by code_simp
  have c: "messageUrls exLinkEnv ?m \<noteq> []" by code_simp
  have u: "userId exJob = ''u1''" by code_simp
  have v: "varchar 255 (senderEmail (metadata exJob)) = Some ''ann@example.com''" by code_simp
  have i: "messageId exJob = ''m1''" by code_simp
  from t l p have n: "processEmailJob exLinkEnv 6 exJob ?s1 = (Inr (), ?s1)" by blast
  from t l a p obtain message row where
    f: "fetchMessage exLinkEnv exJob exStore = Inr message"
       "emails ?s1 = emails exStore @ [row]"
       "em_user_id row = userId exJob" "gmail_message_id row = messageId exJob"
       "varchar 255 (senderEmail (metadata exJob)) = Some (sender_email row)"
       "if messageUrls exLinkEnv message = [] then sender_stats ?s1 = sender_stats exStore
        else senderCount ?s1 (userId exJob) (sender_email row)
               = senderCount exStore (userId exJob) (sender_email row) + 1"
    by blast
  from f(1) b have m: "message = ?m" by simp
  from f(5) v have se: "sender_email row = ''ann@example.com''" by simp
  have e0: "emails exStore = []" by code_simp
  from f(6) c have cnt: "senderCount ?s1 ''u1'' ''ann@example.com''
       = senderCount exStore ''u1'' ''ann@example.com'' + 1"
    unfolding m se u by simp
  have ids: "map gmail_message_id (emails ?s1) = [''m1'']"
    using f(2,4) by (simp add: e0 i)
  have ex: "emailExists ?s1 (userId exJob) (messageId exJob)"
    using f(2,3,4) by (rule emailExists_snoc)
  show ?thesis using l a r b c ids ex cnt n by blast
qed


section \<open>Scores and evaluation at concrete inputs\<close>

text \<open>What does hold of the scores: with a positive half-life, a video published no later
  than the email was received, a non-negative reply count and non-negative email counts,
  all five feature scores and the final score lie between 0 and 1.\<close>

lemma computeSenderScore_bounds:
  assumes "\<forall>r \<in> set (sender_stats s). 0 \<le> email_count r"
  shows "0 \<le> computeSenderScore s now u e \<and> computeSenderScore s now u e \<le> 1"
proof (cases "senderStatsOf s u e")
  case None
  then show ?thesis by (simp add: computeSenderScore_def)
next
  case (Some stat)
  then have "stat \<in> set (sender_stats s)"
    by (auto simp: senderStatsOf_def find_Some_iff)
  then have c: "0 \<le> email_count stat" using assms by blast
  define logScore where "logScore = ln (real_of_int (email_count stat) + 1) / ln 1001"
  define recency where "recency =
     exp (- (case last_email_at stat of Some t \<Rightarrow> real_of_int (now - t) / msPerDay | None \<Rightarrow> 365) / 30)"
  define boost :: real where "boost = (if is_in_contacts stat then 1.5 else 1)"
  have "0 \<le> ln (real_of_int (email_count stat) + 1)" using c by simp
  moreover have "0 < ln (1001::real)" by simp
  ultimately have "0 \<le> logScore" by (simp add: logScore_def)
  then have "0 \<le> min logScore 1 * recency * boost"
    by (simp add: recency_def boost_def)
  moreover have "computeSenderScore s now u e = min (min logScore 1 * recency * boost) 1"
    using Some by (simp add: computeSenderScore_def Let_def logScore_def recency_def boost_def)
  ultimately show ?thesis by simp
qed

lemma computeFreshnessScore_bounds:
  assumes "0 < freshnessHalfLifeDays cfg" "published \<le> received"
  shows "0 < computeFreshnessScore cfg published received
         \<and> computeFreshnessScore cfg published received \<le> 1"
proof -
  have "0 \<le> real_of_int (received - published) / msPerDay"
    using assms(2) by (simp add: msPerDay_def)
  then have "0 \<le> real_of_int (received - published) / msPerDay / freshnessHalfLifeDays cfg"
    using assms(1) by (rule divide_nonneg_pos)
  then have "- (real_of_int (received - published) / msPerDay) / freshnessHalfLifeDays cfg \<le> 0"
    by simp
  then have "exp (- (real_of_int (received - published) / msPerDay) / freshnessHalfLifeDays cfg) \<le> 1"
    by (simp only: exp_le_one_iff)
  then show ?thesis by (simp add: computeFreshnessScore_def Let_def)
qed

lemma computeTopicMatchScore_bounds:
  "0 \<le> computeTopicMatchScore t d goals \<and> computeTopicMatchScore t d goals \<le> 1"
proof (cases "goals = []")
  case True
  then show ?thesis by (simp add: computeTopicMatchScore_def)
next
  case False
  have "length (filter P goals) \<le> length goals" for P by simp
  with False show ?thesis
    by (simp add: computeTopicMatchScore_def Let_def divide_le_eq)
qed

lemma computeNoisePenalty_bounds:
  assumes "\<forall>r \<in> set (sender_stats s). 0 \<le> email_count r"
  shows "0 \<le> computeNoisePenalty s u e \<and> computeNoisePenalty s u e \<le> 1"
proof (cases "senderStatsOf s u e")
  case None
  then show ?thesis by (simp add: computeNoisePenalty_def)
next
  case (Some stat)
  then have "stat \<in> set (sender_stats s)"
    by (auto simp: senderStatsOf_def find_Some_iff)
  then have "0 \<le> real_of_int (email_count stat) / 100" using assms by simp
  with Some show ?thesis by (simp add: computeNoisePenalty_def min_def)
qed

lemma scores_bounded_when_published_first:
  assumes "0 < freshnessHalfLifeDays cfg" "videoPublishedAt ctx \<le> emailReceivedAt ctx"
    "0 \<le> threadReplyCount ctx" "\<forall>r \<in> set (sender_stats s). 0 \<le> email_count r"
  shows "0 \<le> senderScore (featureScores (rank cfg s now ctx))
       \<and> senderScore (featureScores (rank cfg s now ctx)) \<le> 1
       \<and> 0 \<le> threadScore (featureScores (rank cfg s now ctx))
       \<and> threadScore (featureScores (rank cfg s now ctx)) \<le> 1
       \<and> 0 \<le> freshnessScore (featureScores (rank cfg s now ctx))
       \<and> freshnessScore (featureScores (rank cfg s now ctx)) \<le> 1
       \<and> 0 \<le> topicMatchScore (featureScores (rank cfg s now ctx))
       \<and> topicMatchScore (featureScores (rank cfg s now ctx)) \<le> 1
       \<and> 0 \<le> noisePenalty (featureScores (rank cfg s now ctx))
       \<and> noisePenalty (featureScores (rank cfg s now ctx)) \<le> 1
       \<and> 0 \<le> finalScore (rank cfg s now ctx) \<and> finalScore (rank cfg s now ctx) \<le> 1"
proof -
  have t: "0 \<le> computeThreadScore (threadReplyCount ctx) \<and> computeThreadScore (threadReplyCount ctx) \<le> 1"
    using assms(3) by (simp add: computeThreadScore_def)
  have f: "0 \<le> computeFreshnessScore cfg (videoPublishedAt ctx) (emailReceivedAt ctx)
      \<and> computeFreshnessScore cfg (videoPublishedAt ctx) (emailReceivedAt ctx) \<le> 1"
    using computeFreshnessScore_bounds[OF assms(1,2)] by simp
  show ?thesis
    using computeSenderScore_bounds[OF assms(4)] t f computeTopicMatchScore_bounds
      computeNoisePenalty_bounds[OF assms(4)]
    by (simp add: rank_def extractFeatures_def Let_def)
qed

text \<open>
  C2. The claim bounds every feature score by 1. The freshness score of a video
  published thirty days after the email was received, under the default half-life of
  thirty days, is \<open>exp 1\<close>, which is greater than 1, and \<^verbatim>\<open>rank\<close> returns it unclamped
  among the feature scores.
\<close>

theorem computeFreshnessScore_exceeds_one:
  "computeFreshnessScore defaultRanking 2592000000 0 = exp 1
   \<and> 1 < computeFreshnessScore defaultRanking 2592000000 0
   \<and> 1 < freshnessScore (featureScores (rank defaultRanking exStore 0 exFutureContext))"
proof -
  have "computeFreshnessScore defaultRanking 2592000000 0 = exp 1"
    by (simp add: computeFreshnessScore_def defaultRanking_def msPerDay_def)
  then show ?thesis
    by (simp add: rank_def extractFeatures_def exFutureContext_def Let_def)
qed

text \<open>What the harness computes: the selected rankings sorted by \<^verbatim>\<open>ranked_at\<close>
  descending and then \<^verbatim>\<open>final_score\<close> descending; among the first k, those whose link's
  last feedback row is relevant; divided by min(k, number of rankings), and 0 when that
  is 0.\<close>

lemma mset_insortBy: "mset (insortBy before x xs) = add_mset x (mset xs)"
  by (induction xs) auto

lemma mset_sortBy: "mset (sortBy before xs) = mset xs"
  by (induction xs) (auto simp: sortBy_def mset_insortBy)

lemma set_insortBy: "set (insortBy before x xs) = insert x (set xs)"
  by (induction xs) auto

lemma rankedBefore_total: "\<not> rankedBefore a b \<Longrightarrow> rankedBefore b a"
  by (auto simp: rankedBefore_def)

lemma rankedBefore_trans: "rankedBefore a b \<Longrightarrow> rankedBefore b c \<Longrightarrow> rankedBefore a c"
  by (auto simp: rankedBefore_def)

lemma sorted_insortBy_total:
  assumes total: "\<And>a b. \<not> R a b \<Longrightarrow> R b a" and trans: "\<And>a b c. R a b \<Longrightarrow> R b c \<Longrightarrow> R a c"
  shows "sorted_wrt R xs \<Longrightarrow> sorted_wrt R (insortBy R x xs)"
proof (induction xs)
  case Nil
  then show ?case by simp
next
  case (Cons y ys)
  show ?case
  proof (cases "R x y")
    case True
    then have "\<forall>z \<in> set ys. R x z"
      using Cons.prems trans by auto
    with True Cons.prems show ?thesis by simp
  next
    case False
    then have "R y x" by (rule total)
    with False Cons show ?thesis by (auto simp: set_insortBy)
  qed
qed

lemma sorted_sortBy_total:
  assumes "\<And>a b. \<not> R a b \<Longrightarrow> R b a" "\<And>a b c. R a b \<Longrightarrow> R b c \<Longrightarrow> R a c"
  shows "sorted_wrt R (sortBy R xs)"
proof (induction xs)
  case Nil
  show ?case by (simp add: sortBy_def)
next
  case (Cons x xs)
  have "sortBy R (x # xs) = insortBy R x (sortBy R xs)" by (simp add: sortBy_def)
  with Cons sorted_insortBy_total[of R, OF assms] show ?case by simp
qed

lemma sorted_sortBy: "sorted_wrt rankedBefore (sortBy rankedBefore xs)"
  by (rule sorted_sortBy_total) (auto simp: rankedBefore_def)

lemma sorted_sortBy_spec: "sorted_wrt specRankedBefore (sortBy specRankedBefore xs)"
  by (rule sorted_sortBy_total) (auto simp: specRankedBefore_def)

text \<open>A list sorted by a relation is the only sorted arrangement of its rows when
  no two of them tie.\<close>

lemma sorted_wrt_unique:
  assumes "sorted_wrt R ys" "sorted_wrt (\<lambda>a b. R a b \<and> \<not> R b a) zs" "mset ys = mset zs"
  shows "ys = zs"
  using assms
proof (induction zs arbitrary: ys)
  case Nil
  then show ?case by simp
next
  case (Cons z zs)
  then obtain y ys' where ys: "ys = y # ys'" by (cases ys) auto
  have s: "set (y # ys') = set (z # zs)"
    using Cons.prems(3) ys by (metis mset_eq_setD)
  have yz: "y = z"
  proof (rule ccontr)
    assume n: "y \<noteq> z"
    from s n have "y \<in> set zs" by auto
    then have 1: "\<not> R y z" using Cons.prems(2) by auto
    from s n have "z \<in> set ys'" by auto
    then have "R y z" using Cons.prems(1) ys by auto
    with 1 show False by simp
  qed
  have "ys' = zs" using Cons.IH[of ys'] Cons.prems ys yz by simp
  with yz ys show ?case by simp
qed

lemma mset_single_list: "mset xs = mset [a] \<Longrightarrow> xs = [a]"
  by (cases xs) auto

lemma mset_pair_list: "mset xs = mset [a, b] \<Longrightarrow> xs = [a, b] \<or> xs = [b, a]"
proof (cases xs)
  case Nil
  assume "mset xs = mset [a, b]"
  with Nil show ?thesis by simp
next
  case (Cons x xs')
  assume m: "mset xs = mset [a, b]"
  then have "x \<in> set [a, b]" using Cons by (metis list.set_intros(1) mset_eq_setD)
  then consider "x = a" | "x = b" by auto
  then show ?thesis
  proof cases
    case 1
    with m Cons have "mset xs' = mset [b]" by simp
    then have "xs' = [b]" by (rule mset_single_list)
    with 1 Cons show ?thesis by simp
  next
    case 2
    with m Cons have "mset xs' = mset [a]" by (simp add: add_mset_commute)
    then have "xs' = [a]" by (rule mset_single_list)
    with 2 Cons show ?thesis by simp
  qed
qed

lemma map_of_relevance_fold:
  "map_of (foldl (\<lambda>m fb. mapSet m (fb_link_id fb) (isRelevant fb)) m0 fbs) l
     = (case filter (\<lambda>fb. fb_link_id fb = l) fbs of
          [] \<Rightarrow> map_of m0 l
        | xs \<Rightarrow> Some (isRelevant (last xs)))"
proof (induction fbs arbitrary: m0)
  case Nil
  show ?case by simp
next
  case (Cons fb fbs)
  show ?case
    by (cases "filter (\<lambda>fb. fb_link_id fb = l) fbs")
       (auto simp: Cons.IH map_of_mapSet)
qed

lemma relevanceMap_last:
  "(map_of (buildRelevanceMap fbs) l = Some True) = lastRelevant fbs l"
  by (simp add: buildRelevanceMap_def map_of_relevance_fold lastRelevant_def split: list.splits)

lemma precisionAt_computes:
  "sorted_wrt rankedBefore (queryRankings ord s u start end)
   \<and> mset (queryRankings ord s u start end)
       = mset (rankingRows ord (filter (rankingSelected s u start end) (rankings s)))
   \<and> precisionAt ord s u start end k =
       (if min k (length (queryRankings ord s u start end)) = 0 then 0
        else real (length (filter (\<lambda>r. lastRelevant (queryFeedback ord s u start end) (rk_link_id r))
                             (take k (queryRankings ord s u start end))))
               / real (min k (length (queryRankings ord s u start end))))"
  by (simp add: queryRankings_def sorted_sortBy mset_sortBy precisionAt_def
      computePrecisionAtK_def relevanceMap_last Let_def min_def)

text \<open>The rows that the two queries select from the example stores, and the one
  order in which the six rankings can come out of each sort.\<close>

lemma exSixStore_rankings:
  assumes "keepsRows ord"
  shows "queryRankings ord exSixStore ''u1'' 0 1000 = rev exSixRankings"
    and "sortBy specRankedBefore
           (rankingRows ord (filter (rankingSelected exSixStore ''u1'' 0 1000) (rankings exSixStore)))
         = exSixRankings"
proof -
  have sel: "filter (rankingSelected exSixStore ''u1'' 0 1000) (rankings exSixStore) = exSixRankings"
    by code_simp
  have m: "mset (rankingRows ord exSixRankings) = mset exSixRankings"
    using assms by (simp add: keepsRows_def)
  have c: "sorted_wrt (\<lambda>a b. rankedBefore a b \<and> \<not> rankedBefore b a) (rev exSixRankings)"
    by code_simp
  have "sortBy rankedBefore (rankingRows ord exSixRankings) = rev exSixRankings"
    using sorted_sortBy c by (rule sorted_wrt_unique) (simp add: mset_sortBy m)
  then show "queryRankings ord exSixStore ''u1'' 0 1000 = rev exSixRankings"
    by (simp add: queryRankings_def sel)
  have d: "sorted_wrt (\<lambda>a b. specRankedBefore a b \<and> \<not> specRankedBefore b a) exSixRankings"
    by code_simp
  have "sortBy specRankedBefore (rankingRows ord exSixRankings) = exSixRankings"
    using sorted_sortBy_spec d by (rule sorted_wrt_unique) (simp add: mset_sortBy m)
  then show "sortBy specRankedBefore
           (rankingRows ord (filter (rankingSelected exSixStore ''u1'' 0 1000) (rankings exSixStore)))
         = exSixRankings"
    by (simp add: sel)
qed

lemma exSixStore_feedback:
  assumes "keepsRows ord"
  shows "queryFeedback ord exSixStore ''u1'' 0 1000 = [exWatched]"
proof -
  have "filter (feedbackSelected ''u1'' 0 1000) (feedback exSixStore) = [exWatched]"
    by code_simp
  moreover have "mset (feedbackRows ord [exWatched]) = mset [exWatched]"
    using assms by (simp add: keepsRows_def)
  ultimately show ?thesis by (simp add: queryFeedback_def mset_single_list)
qed

lemma exOverwriteStore_rows:
  assumes "keepsRows ord"
  shows "queryRankings ord exOverwriteStore ''u1'' 0 1000 = [exRanking 1 0.9 100]"
    and "sortBy specRankedBefore
           (rankingRows ord
              (filter (rankingSelected exOverwriteStore ''u1'' 0 1000) (rankings exOverwriteStore)))
         = [exRanking 1 0.9 100]"
    and "queryFeedback ord exOverwriteStore ''u1'' 0 1000 = [exLabelled, exSkipped]
         \<or> queryFeedback ord exOverwriteStore ''u1'' 0 1000 = [exSkipped, exLabelled]"
proof -
  have sel: "filter (rankingSelected exOverwriteStore ''u1'' 0 1000) (rankings exOverwriteStore)
               = [exRanking 1 0.9 100]"
    by code_simp
  have "mset (rankingRows ord [exRanking 1 0.9 100]) = mset [exRanking 1 0.9 100]"
    using assms by (simp add: keepsRows_def)
  then have r: "rankingRows ord [exRanking 1 0.9 100] = [exRanking 1 0.9 100]"
    by (rule mset_single_list)
  show "queryRankings ord exOverwriteStore ''u1'' 0 1000 = [exRanking 1 0.9 100]"
    by (simp only: queryRankings_def sel r) (simp add: sortBy_def)
  show "sortBy specRankedBefore
           (rankingRows ord
              (filter (rankingSelected exOverwriteStore ''u1'' 0 1000) (rankings exOverwriteStore)))
         = [exRanking 1 0.9 100]"
    by (simp only: sel r) (simp add: sortBy_def)
  have f: "filter (feedbackSelected ''u1'' 0 1000) (feedback exOverwriteStore)
             = [exLabelled, exSkipped]"
    by code_simp
  have "mset (feedbackRows ord [exLabelled, exSkipped]) = mset [exLabelled, exSkipped]"
    using assms by (simp add: keepsRows_def)
  then have "feedbackRows ord [exLabelled, exSkipped] = [exLabelled, exSkipped]
           \<or> feedbackRows ord [exLabelled, exSkipped] = [exSkipped, exLabelled]"
    by (rule mset_pair_list)
  then show "queryFeedback ord exOverwriteStore ''u1'' 0 1000 = [exLabelled, exSkipped]
         \<or> queryFeedback ord exOverwriteStore ''u1'' 0 1000 = [exSkipped, exLabelled]"
    by (simp add: queryFeedback_def f)
qed

text \<open>
  C3. The claim takes the top k by \<^verbatim>\<open>final_score\<close> and counts a link as relevant when
  some feedback row says so. The harness reads the rankings by \<^verbatim>\<open>ranked_at\<close> first:
  of six rankings of which the oldest has the highest score and was watched, its five
  newest are the top five, so \<^verbatim>\<open>precisionAt5\<close> is 0 where the claim gives 1/5, in
  whatever order the database yields the rows. Moreover a feedback row of a link
  overwrites the rows read before it: for a link labelled \<^verbatim>\<open>watch_now\<close> and skipped
  later, \<^verbatim>\<open>precisionAt5\<close> is 1 or 0 according to which of the two rows the database
  yields last, and it is 0 in table order and in the order of
  \<^verbatim>\<open>idx_feedback_user_action\<close>, where the claim gives 1.
\<close>

theorem precisionAt_differs_from_specification:
  "(keepsRows ord \<longrightarrow>
      precisionAt5 (evaluate ord exSixStore ''u1'' 0 1000) = 0
      \<and> specPrecisionAt ord exSixStore ''u1'' 0 1000 5 = 1 / 5)
   \<and> (keepsRows ord \<longrightarrow>
      precisionAt5 (evaluate ord exOverwriteStore ''u1'' 0 1000)
        = (if isRelevant (last (queryFeedback ord exOverwriteStore ''u1'' 0 1000)) then 1 else 0)
      \<and> specPrecisionAt ord exOverwriteStore ''u1'' 0 1000 5 = 1)
   \<and> precisionAt5 (evaluate tableOrder exOverwriteStore ''u1'' 0 1000) = 0
   \<and> precisionAt5 (evaluate indexOrder exOverwriteStore ''u1'' 0 1000) = 0"
proof (intro conjI impI)
  assume k: "keepsRows ord"
  have "computePrecisionAtK (rev exSixRankings) (buildRelevanceMap [exWatched]) 5 = 0"
    by code_simp
  then show "precisionAt5 (evaluate ord exSixStore ''u1'' 0 1000) = 0"
    by (simp add: evaluate_def precisionAt_def exSixStore_rankings(1)[OF k] exSixStore_feedback[OF k])
  have "specPrecisionOf exSixRankings [exWatched] 5 = 1 / 5"
    by code_simp
  then show "specPrecisionAt ord exSixStore ''u1'' 0 1000 5 = 1 / 5"
    by (simp add: specPrecisionAt_def exSixStore_rankings(2)[OF k] exSixStore_feedback[OF k])
next
  assume k: "keepsRows ord"
  note r = exOverwriteStore_rows[OF k]
  have c: "computePrecisionAtK [exRanking 1 0.9 100] (buildRelevanceMap [exLabelled, exSkipped]) 5 = 0"
    "computePrecisionAtK [exRanking 1 0.9 100] (buildRelevanceMap [exSkipped, exLabelled]) 5 = 1"
    "isRelevant exLabelled" "\<not> isRelevant exSkipped"
    by code_simp+
  from r(3) c show "precisionAt5 (evaluate ord exOverwriteStore ''u1'' 0 1000)
        = (if isRelevant (last (queryFeedback ord exOverwriteStore ''u1'' 0 1000)) then 1 else 0)"
    by (auto simp: evaluate_def precisionAt_def r(1))
  have s: "specPrecisionOf [exRanking 1 0.9 100] [exLabelled, exSkipped] 5 = 1"
    "specPrecisionOf [exRanking 1 0.9 100] [exSkipped, exLabelled] 5 = 1"
    by code_simp+
  from r(3) s show "specPrecisionAt ord exOverwriteStore ''u1'' 0 1000 5 = 1"
    by (auto simp: specPrecisionAt_def r(2))
next
  show "precisionAt5 (evaluate tableOrder exOverwriteStore ''u1'' 0 1000) = 0"
    by code_simp
  show "precisionAt5 (evaluate indexOrder exOverwriteStore ''u1'' 0 1000) = 0"
    by code_simp
qed

theorem precisionAt_differs_from_specification_witness:
  "keepsRows tableOrder \<and> keepsRows indexOrder
   \<and> precisionAt5 (evaluate tableOrder exSixStore ''u1'' 0 1000) = 0
   \<and> specPrecisionAt tableOrder exSixStore ''u1'' 0 1000 5 = 1 / 5
   \<and> precisionAt5 (evaluate indexOrder exSixStore ''u1'' 0 1000) = 0
   \<and> specPrecisionAt indexOrder exSixStore ''u1'' 0 1000 5 = 1 / 5
   \<and> \<not> isRelevant (last (queryFeedback tableOrder exOverwriteStore ''u1'' 0 1000))
   \<and> \<not> isRelevant (last (queryFeedback indexOrder exOverwriteStore ''u1'' 0 1000))
   \<and> precisionAt5 (evaluate tableOrder exOverwriteStore ''u1'' 0 1000) = 0
   \<and> specPrecisionAt tableOrder exOverwriteStore ''u1'' 0 1000 5 = 1
   \<and> precisionAt5 (evaluate indexOrder exOverwriteStore ''u1'' 0 1000) = 0
   \<and> specPrecisionAt indexOrder exOverwriteStore ''u1'' 0 1000 5 = 1"
proof -
  have t: "keepsRows tableOrder" by (simp add: keepsRows_def tableOrder_def)
  have i: "keepsRows indexOrder" by (simp add: keepsRows_def indexOrder_def mset_sortBy)
  have l: "\<not> isRelevant (last (queryFeedback tableOrder exOverwriteStore ''u1'' 0 1000))"
    "\<not> isRelevant (last (queryFeedback indexOrder exOverwriteStore ''u1'' 0 1000))"
    by code_simp+
  from precisionAt_differs_from_specification[where ord=tableOrder]
       precisionAt_differs_from_specification[where ord=indexOrder] t i l
  show ?thesis by simp
qed

end
